theory Spec2Isabelle
  imports Complex_Main "HOL-Library.Log_Nat"
begin

text \<open>
  The control logic of the on-device AI checker, a browser extension: the capability
  resolver (\<open>getApiObject\<close> and \<open>checkAvailability\<close> of popup.js and their copies in the two
  other source files), the chunked summarization (\<open>runSummarization\<close>), the download
  progress callback, and the scan and replace phases of the word game. The definitions
  come first, each translated from the source function it is named after; the properties
  follow.
\<close>

section \<open>Chunked summarization: sentence splitting and greedy packing\<close>

text \<open>
  The summarization engine (function \<open>runSummarization\<close>) splits a text longer than
  \<open>CHUNK_SIZE\<close> with the global regular expression \<^verbatim>\<open>/[^.!?\n]+[.!?\n]+/g\<close> and packs the
  matches greedily. A JavaScript string is modelled as a list of characters, one list
  element per code unit, so \<open>length\<close> is the string's \<open>.length\<close>.
\<close>

definition CHUNK_SIZE :: nat where
  "CHUNK_SIZE = 4000"

text \<open>The character class \<^verbatim>\<open>[.!?\n]\<close> of the sentence pattern.\<close>

definition isTerminator :: "char \<Rightarrow> bool" where
  "isTerminator c = (c = CHR ''.'' \<or> c = CHR ''!'' \<or> c = CHR ''?'' \<or> c = CHR 0x0A)"

text \<open>
  \<^verbatim>\<open>text.match(/[^.!?\n]+[.!?\n]+/g)\<close>: all non-overlapping matches, scanning from the
  left. At a position the pattern matches when a non-empty run of non-terminators is
  followed by at least one terminator; both runs are taken greedily. Where it does not
  match (the position holds a terminator, or the run of non-terminators reaches the end
  of the text) the scan moves one character on.
\<close>

function matchSentences :: "string \<Rightarrow> string list" where
  "matchSentences [] = []"
| "matchSentences (c # cs) =
     (let body = takeWhile (\<lambda>x. \<not> isTerminator x) (c # cs);
          rest = dropWhile (\<lambda>x. \<not> isTerminator x) (c # cs)
      in if body = [] \<or> rest = [] then matchSentences cs
         else (body @ takeWhile isTerminator rest) # matchSentences (dropWhile isTerminator rest))"
  by pat_completeness auto
termination
proof (relation "measure length")
  show "wf (measure length)" by simp
next
  fix c :: char and cs body rest
  show "(cs, c # cs) \<in> measure length" by simp
next
  fix c :: char and cs :: string and body rest :: string
  assume r: "rest = dropWhile (\<lambda>x. \<not> isTerminator x) (c # cs)"
    and b: "body = takeWhile (\<lambda>x. \<not> isTerminator x) (c # cs)"
    and n: "\<not> (body = [] \<or> rest = [])"
  have "length (dropWhile isTerminator rest) \<le> length rest"
    by (rule length_dropWhile_le)
  moreover have "length body + length rest = length (c # cs)"
    unfolding r b by (metis length_append takeWhile_dropWhile_id)
  moreover have "0 < length body" using n by simp
  ultimately have "length (dropWhile isTerminator rest) < length (c # cs)"
    by linarith
  then show "(dropWhile isTerminator rest, c # cs) \<in> measure length"
    by simp
qed

text \<open>\<^verbatim>\<open>const sentences = text.match(...) || [text]\<close>: \<open>match\<close> gives \<open>null\<close> when nothing matches.\<close>

definition splitSentences :: "string \<Rightarrow> string list" where
  "splitSentences t = (case matchSentences t of [] \<Rightarrow> [t] | m # ms \<Rightarrow> m # ms)"

text \<open>
  The packing loop over the sentences, with the two variables it updates: the list
  \<open>chunks\<close> and the string \<open>currentChunk\<close>.
\<close>

fun packSentences :: "string list \<Rightarrow> string list \<Rightarrow> string \<Rightarrow> string list \<times> string" where
  "packSentences [] chunks currentChunk = (chunks, currentChunk)"
| "packSentences (sentence # ss) chunks currentChunk =
     (if length (currentChunk @ sentence) > CHUNK_SIZE
      then packSentences ss (chunks @ [currentChunk]) sentence
      else packSentences ss chunks (currentChunk @ sentence))"

text \<open>\<^verbatim>\<open>if (currentChunk) chunks.push(currentChunk)\<close>: the empty string is falsy.\<close>

definition flushChunk :: "string list \<times> string \<Rightarrow> string list" where
  "flushChunk p = (if snd p \<noteq> [] then fst p @ [snd p] else fst p)"

definition chunkSentences :: "string list \<Rightarrow> string list" where
  "chunkSentences sentences = flushChunk (packSentences sentences [] [])"

definition chunkText :: "string \<Rightarrow> string list" where
  "chunkText t = chunkSentences (splitSentences t)"

section \<open>JavaScript values and host calls\<close>

text \<open>
  A number is a double: a finite value, given exactly as a rational, the negative zero, or
  one of the three special values. \<open>Fin 0\<close> is the positive zero.
\<close>

datatype jsnum = Fin rat | NegZero | PosInf | NegInf | NaN

text \<open>
  Rounding a rational to the nearest double, ties to even (the rounding of every arithmetic
  operation of the language). For \<open>a > 0\<close>, \<open>floorLog2 a\<close> is the \<open>k\<close> with
  \<open>2 ^ k \<le> a < 2 ^ (k + 1)\<close>. A double has 53 significant bits, so the doubles next to \<open>a\<close>
  are the multiples of \<open>2 ^ (k - 52)\<close>, and of \<open>2 ^ - 1074\<close> below the normal range; a
  value that rounds to \<open>2 ^ 1024\<close> or more becomes infinite, and a value that rounds to
  zero keeps its sign.
\<close>

definition pow2 :: "int \<Rightarrow> rat" where
  "pow2 k = (if 0 \<le> k then 2 ^ nat k else 1 / 2 ^ nat (- k))"

definition floorLog2 :: "rat \<Rightarrow> int" where
  "floorLog2 a =
     (let d = bitlen (fst (quotient_of a)) - bitlen (snd (quotient_of a))
      in if pow2 d \<le> a then d else d - 1)"

definition roundHalfEven :: "rat \<Rightarrow> int" where
  "roundHalfEven m =
     (let f = \<lfloor>m\<rfloor>; r = m - of_int f
      in if r < 1 / 2 then f else if 1 / 2 < r then f + 1 else if even f then f else f + 1)"

text \<open>For \<open>a > 0\<close>: the multiple of the spacing at \<open>a\<close> that is nearest to \<open>a\<close>.\<close>

definition nearest :: "rat \<Rightarrow> rat" where
  "nearest a =
     (let q = max (floorLog2 a - 52) (- 1074)
      in of_int (roundHalfEven (a / pow2 q)) * pow2 q)"

definition toDouble :: "rat \<Rightarrow> jsnum" where
  "toDouble x =
     (if x = 0 then Fin 0
      else
        (let v = nearest \<bar>x\<bar>
         in if pow2 1024 \<le> v then (if 0 < x then PosInf else NegInf)
            else if v = 0 then (if 0 < x then Fin 0 else NegZero)
            else Fin (if 0 < x then v else - v)))"

text \<open>The sign bit of a number, and the tests for a zero and for an infinity.\<close>

fun signBit :: "jsnum \<Rightarrow> bool" where
  "signBit (Fin x) = (x < 0)"
| "signBit NegZero = True"
| "signBit PosInf = False"
| "signBit NegInf = True"
| "signBit NaN = False"

fun isZero :: "jsnum \<Rightarrow> bool" where
  "isZero (Fin x) = (x = 0)"
| "isZero NegZero = True"
| "isZero n = False"

fun isInfinite :: "jsnum \<Rightarrow> bool" where
  "isInfinite PosInf = True"
| "isInfinite NegInf = True"
| "isInfinite n = False"

text \<open>
  The values the modelled code handles. An object is the list of its own properties; a
  function is an object that can be called, and carries the index under which the host
  answers its calls. Properties inherited from prototypes, and the length and the indices
  of an array as properties, are not modelled.
\<close>

datatype jsval =
    JUndefined
  | JNull
  | JBool bool
  | JNum jsnum
  | JStr string
  | JArr "jsval list"
  | JObj "(string \<times> jsval) list"
  | JFun nat "(string \<times> jsval) list"

text \<open>A call, a property read or an \<open>await\<close> either gives a value or throws one.\<close>

datatype 'a outcome = Returned 'a | Thrown jsval

text \<open>\<^verbatim>\<open>new Error(message)\<close>, as far as the code reads it: its \<open>message\<close>.\<close>

definition newError :: "string \<Rightarrow> jsval" where
  "newError message = JObj [(''message'', JStr message)]"

text \<open>Truthiness, as \<^verbatim>\<open>if (v)\<close>, \<^verbatim>\<open>!v\<close> and \<^verbatim>\<open>a && b\<close> test it.\<close>

fun truthy :: "jsval \<Rightarrow> bool" where
  "truthy JUndefined = False"
| "truthy JNull = False"
| "truthy (JBool b) = b"
| "truthy (JNum n) = (\<not> isZero n \<and> n \<noteq> NaN)"
| "truthy (JStr s) = (s \<noteq> [])"
| "truthy (JArr xs) = True"
| "truthy (JObj fs) = True"
| "truthy (JFun fid fs) = True"

fun typeof :: "jsval \<Rightarrow> string" where
  "typeof JUndefined = ''undefined''"
| "typeof JNull = ''object''"
| "typeof (JBool b) = ''boolean''"
| "typeof (JNum n) = ''number''"
| "typeof (JStr s) = ''string''"
| "typeof (JArr xs) = ''object''"
| "typeof (JObj fs) = ''object''"
| "typeof (JFun fid fs) = ''function''"

text \<open>
  Reading a named property \<^verbatim>\<open>v.k\<close> or \<^verbatim>\<open>v[k]\<close>: a \<open>TypeError\<close> on \<open>null\<close> and
  \<open>undefined\<close>, the own property of an object or function, \<open>undefined\<close> otherwise.
\<close>

fun getProp :: "jsval \<Rightarrow> string \<Rightarrow> jsval outcome" where
  "getProp JUndefined k = Thrown (newError ''TypeError'')"
| "getProp JNull k = Thrown (newError ''TypeError'')"
| "getProp (JObj fs) k = Returned (case map_of fs k of None \<Rightarrow> JUndefined | Some v \<Rightarrow> v)"
| "getProp (JFun fid fs) k = Returned (case map_of fs k of None \<Rightarrow> JUndefined | Some v \<Rightarrow> v)"
| "getProp v k = Returned JUndefined"

text \<open>
  The host. \<open>awaitCall h f as\<close> is the settled result of awaiting the call of function
  number \<open>f\<close> with the arguments \<open>as\<close>; inside one run of the code below every call has its
  own argument list, so a function of the arguments loses nothing. \<open>adoptThenable h t\<close> is
  how a promise settles that is resolved with a thenable whose \<open>then\<close> method is function
  number \<open>t\<close>: fulfilled with a value, or rejected.
\<close>

record host =
  awaitCall :: "nat \<Rightarrow> jsval list \<Rightarrow> jsval outcome"
  adoptThenable :: "nat \<Rightarrow> jsval outcome"

fun callFunction :: "host \<Rightarrow> jsval \<Rightarrow> jsval list \<Rightarrow> jsval outcome" where
  "callFunction h (JFun fid fs) as = awaitCall h fid as"
| "callFunction h v as = Thrown (newError ''TypeError'')"

text \<open>A thenable is an object or a function with a method \<open>then\<close>; \<open>thenOf\<close> gives that method's number.\<close>

definition thenOf :: "jsval \<Rightarrow> nat option" where
  "thenOf v =
     (case v of
        JObj fs \<Rightarrow> (case map_of fs ''then'' of Some (JFun t gs) \<Rightarrow> Some t | _ \<Rightarrow> None)
      | JFun f fs \<Rightarrow> (case map_of fs ''then'' of Some (JFun t gs) \<Rightarrow> Some t | _ \<Rightarrow> None)
      | _ \<Rightarrow> None)"

text \<open>
  What the caller of an \<open>async\<close> function gets when it awaits the call. An exception that
  leaves the body rejects the promise. A \<^verbatim>\<open>return v\<close> resolves it with \<open>v\<close>: when \<open>v\<close> is a
  thenable the promise takes the thenable's outcome, and this happens after the body, with
  its \<open>try\<close> blocks, has been left.
\<close>

definition asyncReturn :: "host \<Rightarrow> jsval outcome \<Rightarrow> jsval outcome" where
  "asyncReturn h r =
     (case r of
        Thrown e \<Rightarrow> Thrown e
      | Returned v \<Rightarrow> (case thenOf v of None \<Rightarrow> Returned v | Some t \<Rightarrow> adoptThenable h t))"

section \<open>Capability resolver (popup.js)\<close>

text \<open>
  A capability descriptor, one element of the array \<open>apis\<close>, with the fields the modelled
  code reads. An optional field that is absent is \<open>None\<close>; \<open>checkArgs\<close> is \<open>JUndefined\<close>
  when absent.
\<close>

record apiDef =
  key :: string
  checkArgs :: jsval
  namespace :: "string option"
  fallback :: "string option"

text \<open>The object \<^verbatim>\<open>{ api, path }\<close> that \<open>getApiObject\<close> returns.\<close>

record resolved =
  api :: jsval
  path :: string

text \<open>
  The global object \<open>window\<close> is given by its properties: \<open>window k\<close> is \<^verbatim>\<open>window[k]\<close>,
  \<open>JUndefined\<close> for a name that is not bound.
\<close>

type_synonym window = "string \<Rightarrow> jsval"

text \<open>What a \<^verbatim>\<open>catch\<close> block that returns \<open>'error'\<close> makes of an outcome.\<close>

definition catchError :: "jsval outcome \<Rightarrow> jsval outcome" where
  "catchError r = (case r of Thrown e \<Rightarrow> Returned (JStr ''error'') | Returned v \<Rightarrow> Returned v)"

text \<open>
  \<open>getApiObject\<close>, lines 55 to 74 of popup.js. The first \<open>case\<close> evaluates
  \<^verbatim>\<open>window.ai && window.ai[apiDef.key]\<close> (the left operand when it is falsy) where the
  namespace is \<open>'ai'\<close>.
\<close>

definition getApiObject :: "window \<Rightarrow> apiDef \<Rightarrow> resolved outcome" where
  "getApiObject w apiDef =
     (case (if namespace apiDef = Some ''ai''
            then (if truthy (w ''ai'') then getProp (w ''ai'') (key apiDef) else Returned (w ''ai''))
            else Returned JUndefined) of
        Thrown e \<Rightarrow> Thrown e
      | Returned m \<Rightarrow>
          if namespace apiDef = Some ''ai'' \<and> truthy m
          then Returned \<lparr>api = m, path = ''window.ai.'' @ key apiDef\<rparr>
          else if truthy (w (key apiDef))
          then Returned \<lparr>api = w (key apiDef), path = ''window.'' @ key apiDef\<rparr>
          else (case fallback apiDef of
                  None \<Rightarrow> Returned \<lparr>api = JNull, path = []\<rparr>
                | Some f \<Rightarrow>
                    if f \<noteq> [] \<and> truthy (w f)
                    then Returned \<lparr>api = w f, path = ''window.'' @ f\<rparr>
                    else Returned \<lparr>api = JNull, path = []\<rparr>))"

text \<open>
  \<open>checkAvailability\<close>, lines 76 to 113 of popup.js, an \<open>async\<close> function. The inner \<open>case\<close>
  separates the early \<^verbatim>\<open>return 'error'\<close> of the second \<open>catch\<close> (\<open>Inl\<close>) from the status the
  two attempts leave (\<open>Inr\<close>). The value of \<^verbatim>\<open>return status.available\<close> is not awaited inside
  the \<open>try\<close>, so \<open>asyncReturn\<close> stands outside \<open>catchError\<close>.
\<close>

definition checkAvailability :: "host \<Rightarrow> jsval \<Rightarrow> jsval \<Rightarrow> jsval outcome" where
  "checkAvailability h apiObject args =
     asyncReturn h
       (if \<not> truthy apiObject then Returned (JStr ''unavailable'')
        else catchError
          (case getProp apiObject ''availability'' of
             Thrown e \<Rightarrow> Thrown e
           | Returned availability \<Rightarrow>
               if typeof availability = ''function'' then
                 (let status =
                        (if truthy args
                         then (case callFunction h availability [args] of
                                 Returned v \<Rightarrow> v
                               | Thrown e \<Rightarrow> JUndefined)
                         else JUndefined)
                  in case (if status = JUndefined
                           then (case callFunction h availability [] of
                                   Returned v \<Rightarrow> Inr v
                                 | Thrown e \<Rightarrow> if truthy args then Inl (JStr ''error'') else Inr status)
                           else Inr status) of
                       Inl early \<Rightarrow> Returned early
                     | Inr status \<Rightarrow>
                         if status = JUndefined then Returned (JStr ''error'')
                         else if typeof status = ''object'' then
                           (case getProp status ''available'' of
                              Thrown e \<Rightarrow> Thrown e
                            | Returned available \<Rightarrow>
                                if truthy available then Returned available
                                else Returned (JStr ''available_object''))
                         else Returned status)
               else Returned (JStr ''available_unknown_methods'')))"

text \<open>
  Lines 100 to 106 on their own: what the function returns for the status the two attempts
  left. It is used to state lemmas about \<open>checkAvailability\<close>.
\<close>

definition statusResult :: "jsval \<Rightarrow> jsval outcome" where
  "statusResult status =
     (if status = JUndefined then Returned (JStr ''error'')
      else if typeof status = ''object'' then
        (case getProp status ''available'' of
           Thrown e \<Rightarrow> Thrown e
         | Returned available \<Rightarrow>
             if truthy available then Returned available
             else Returned (JStr ''available_object''))
      else Returned status)"

section \<open>The copies of the resolver in the two other source files\<close>

text \<open>
  \<open>getApiObject\<close> as written in part_000, lines 98 to 117. The first \<open>case\<close> evaluates
  \<^verbatim>\<open>window.ai && window.ai[apiDef.key]\<close> (the left operand when it is falsy) where the
  namespace is \<open>'ai'\<close>.
\<close>

definition getApiObject_part000 :: "window \<Rightarrow> apiDef \<Rightarrow> resolved outcome" where
  "getApiObject_part000 w apiDef =
     (case (if namespace apiDef = Some ''ai''
            then (if truthy (w ''ai'') then getProp (w ''ai'') (key apiDef) else Returned (w ''ai''))
            else Returned JUndefined) of
        Thrown e \<Rightarrow> Thrown e
      | Returned m \<Rightarrow>
          if namespace apiDef = Some ''ai'' \<and> truthy m
          then Returned \<lparr>api = m, path = ''window.ai.'' @ key apiDef\<rparr>
          else if truthy (w (key apiDef))
          then Returned \<lparr>api = w (key apiDef), path = ''window.'' @ key apiDef\<rparr>
          else (case fallback apiDef of
                  None \<Rightarrow> Returned \<lparr>api = JNull, path = []\<rparr>
                | Some f \<Rightarrow>
                    if f \<noteq> [] \<and> truthy (w f)
                    then Returned \<lparr>api = w f, path = ''window.'' @ f\<rparr>
                    else Returned \<lparr>api = JNull, path = []\<rparr>))"

text \<open>
  \<open>checkAvailability\<close> as written in part_000, lines 119 to 160, an \<open>async\<close> function. The inner \<open>case\<close>
  separates the early \<^verbatim>\<open>return 'error'\<close> of the second \<open>catch\<close> (\<open>Inl\<close>) from the status the
  two attempts leave (\<open>Inr\<close>). The value of \<^verbatim>\<open>return status.available\<close> is not awaited inside
  the \<open>try\<close>, so \<open>asyncReturn\<close> stands outside \<open>catchError\<close>.
\<close>

definition checkAvailability_part000 :: "host \<Rightarrow> jsval \<Rightarrow> jsval \<Rightarrow> jsval outcome" where
  "checkAvailability_part000 h apiObject args =
     asyncReturn h
       (if \<not> truthy apiObject then Returned (JStr ''unavailable'')
        else catchError
          (case getProp apiObject ''availability'' of
             Thrown e \<Rightarrow> Thrown e
           | Returned availability \<Rightarrow>
               if typeof availability = ''function'' then
                 (let status =
                        (if truthy args
                         then (case callFunction h availability [args] of
                                 Returned v \<Rightarrow> v
                               | Thrown e \<Rightarrow> JUndefined)
                         else JUndefined)
                  in case (if status = JUndefined
                           then (case callFunction h availability [] of
                                   Returned v \<Rightarrow> Inr v
                                 | Thrown e \<Rightarrow> if truthy args then Inl (JStr ''error'') else Inr status)
                           else Inr status) of
                       Inl early \<Rightarrow> Returned early
                     | Inr status \<Rightarrow>
                         if status = JUndefined then Returned (JStr ''error'')
                         else if typeof status = ''object'' then
                           (case getProp status ''available'' of
                              Thrown e \<Rightarrow> Thrown e
                            | Returned available \<Rightarrow>
                                if truthy available then Returned available
                                else Returned (JStr ''available_object''))
                         else Returned status)
               else Returned (JStr ''available_unknown_methods'')))"

text \<open>
  \<open>getApiObject\<close> as written in part_001, lines 39 to 58. The first \<open>case\<close> evaluates
  \<^verbatim>\<open>window.ai && window.ai[apiDef.key]\<close> (the left operand when it is falsy) where the
  namespace is \<open>'ai'\<close>.
\<close>

definition getApiObject_part001 :: "window \<Rightarrow> apiDef \<Rightarrow> resolved outcome" where
  "getApiObject_part001 w apiDef =
     (case (if namespace apiDef = Some ''ai''
            then (if truthy (w ''ai'') then getProp (w ''ai'') (key apiDef) else Returned (w ''ai''))
            else Returned JUndefined) of
        Thrown e \<Rightarrow> Thrown e
      | Returned m \<Rightarrow>
          if namespace apiDef = Some ''ai'' \<and> truthy m
          then Returned \<lparr>api = m, path = ''window.ai.'' @ key apiDef\<rparr>
          else if truthy (w (key apiDef))
          then Returned \<lparr>api = w (key apiDef), path = ''window.'' @ key apiDef\<rparr>
          else (case fallback apiDef of
                  None \<Rightarrow> Returned \<lparr>api = JNull, path = []\<rparr>
                | Some f \<Rightarrow>
                    if f \<noteq> [] \<and> truthy (w f)
                    then Returned \<lparr>api = w f, path = ''window.'' @ f\<rparr>
                    else Returned \<lparr>api = JNull, path = []\<rparr>))"

text \<open>
  \<open>checkAvailability\<close> as written in part_001, lines 60 to 101, an \<open>async\<close> function. The inner \<open>case\<close>
  separates the early \<^verbatim>\<open>return 'error'\<close> of the second \<open>catch\<close> (\<open>Inl\<close>) from the status the
  two attempts leave (\<open>Inr\<close>). The value of \<^verbatim>\<open>return status.available\<close> is not awaited inside
  the \<open>try\<close>, so \<open>asyncReturn\<close> stands outside \<open>catchError\<close>.
\<close>

definition checkAvailability_part001 :: "host \<Rightarrow> jsval \<Rightarrow> jsval \<Rightarrow> jsval outcome" where
  "checkAvailability_part001 h apiObject args =
     asyncReturn h
       (if \<not> truthy apiObject then Returned (JStr ''unavailable'')
        else catchError
          (case getProp apiObject ''availability'' of
             Thrown e \<Rightarrow> Thrown e
           | Returned availability \<Rightarrow>
               if typeof availability = ''function'' then
                 (let status =
                        (if truthy args
                         then (case callFunction h availability [args] of
                                 Returned v \<Rightarrow> v
                               | Thrown e \<Rightarrow> JUndefined)
                         else JUndefined)
                  in case (if status = JUndefined
                           then (case callFunction h availability [] of
                                   Returned v \<Rightarrow> Inr v
                                 | Thrown e \<Rightarrow> if truthy args then Inl (JStr ''error'') else Inr status)
                           else Inr status) of
                       Inl early \<Rightarrow> Returned early
                     | Inr status \<Rightarrow>
                         if status = JUndefined then Returned (JStr ''error'')
                         else if typeof status = ''object'' then
                           (case getProp status ''available'' of
                              Thrown e \<Rightarrow> Thrown e
                            | Returned available \<Rightarrow>
                                if truthy available then Returned available
                                else Returned (JStr ''available_object''))
                         else Returned status)
               else Returned (JStr ''available_unknown_methods'')))"


section \<open>Download progress (the \<open>monitor\<close> callback)\<close>

text \<open>
  A \<open>downloadprogress\<close> event, as far as the handler reads it: the two numbers \<open>loaded\<close>
  and \<open>total\<close>.
\<close>

record progressEvent =
  loaded :: jsnum
  total :: jsnum

text \<open>
  Division of two numbers. It never throws: a zero divided by a zero and an infinity
  divided by an infinity are \<open>NaN\<close>; a division by a zero, or of an infinity, is infinite; a
  division of a zero, or by an infinity, is a zero; the sign is the product of the
  operands' signs. Of two finite operands other than zero it is the exact quotient,
  rounded to a double.
\<close>

definition jsDivide :: "jsnum \<Rightarrow> jsnum \<Rightarrow> jsnum" where
  "jsDivide a b =
     (if a = NaN \<or> b = NaN then NaN
      else if (isInfinite a \<and> isInfinite b) \<or> (isZero a \<and> isZero b) then NaN
      else if isInfinite a \<or> isZero b then (if signBit a \<noteq> signBit b then NegInf else PosInf)
      else if isInfinite b \<or> isZero a then (if signBit a \<noteq> signBit b then NegZero else Fin 0)
      else (case (a, b) of (Fin x, Fin y) \<Rightarrow> toDouble (x / y) | _ \<Rightarrow> NaN))"

text \<open>Multiplication by the positive constant 100: the exact product, rounded to a double.\<close>

fun jsTimes100 :: "jsnum \<Rightarrow> jsnum" where
  "jsTimes100 (Fin x) = toDouble (x * 100)"
| "jsTimes100 NegZero = NegZero"
| "jsTimes100 PosInf = PosInf"
| "jsTimes100 NegInf = NegInf"
| "jsTimes100 NaN = NaN"

text \<open>
  \<^verbatim>\<open>Math.round\<close>: the nearest integer, a half rounded up; the negative zero for a value
  from \<open>- 1 / 2\<close> up to zero. The result is exact.
\<close>

fun mathRound :: "jsnum \<Rightarrow> jsnum" where
  "mathRound (Fin x) = (if - (1 / 2) \<le> x \<and> x < 0 then NegZero else Fin (of_int \<lfloor>x + 1 / 2\<rfloor>))"
| "mathRound n = n"



text \<open>\<^verbatim>\<open>const percent = (e.loaded / e.total) * 100\<close>\<close>

definition percentOf :: "progressEvent \<Rightarrow> jsnum" where
  "percentOf e = jsTimes100 (jsDivide (loaded e) (total e))"

text \<open>
  What the handler shows for one event: the number written into the width of the progress
  bar and the number written into the button's text. Both assignments overwrite what was
  shown before.
\<close>

record progressShown =
  barWidth :: jsnum
  buttonPercent :: jsnum

definition onDownloadProgress :: "progressEvent \<Rightarrow> progressShown" where
  "onDownloadProgress e =
     (let percent = percentOf e in \<lparr>barWidth = percent, buttonPercent = mathRound percent\<rparr>)"



section \<open>Parsing the model's response (scan phase)\<close>

text \<open>
  Characters written by their code: the double quote, the backslash and the backtick.
\<close>

definition dquote :: char where
  "dquote = CHR 0x22"

definition backslash :: char where
  "backslash = CHR 0x5C"

definition fence :: string where
  "fence = [CHR 0x60, CHR 0x60, CHR 0x60]"

text \<open>A string between double quotes, for writing JSON text.\<close>

definition quoted :: "string \<Rightarrow> string" where
  "quoted s = dquote # s @ [dquote]"

text \<open>
  \<^verbatim>\<open>String.prototype.trim\<close>: white space and line terminators, of the code units below 256
  (tab, line feed, vertical tab, form feed, carriage return, space, no-break space).
\<close>

definition isJsWhitespace :: "char \<Rightarrow> bool" where
  "isJsWhitespace c =
     (c = CHR 0x09 \<or> c = CHR 0x0A \<or> c = CHR 0x0B \<or> c = CHR 0x0C \<or> c = CHR 0x0D \<or>
      c = CHR 0x20 \<or> c = CHR 0xA0)"

definition trim :: "string \<Rightarrow> string" where
  "trim s = rev (dropWhile isJsWhitespace (rev (dropWhile isJsWhitespace s)))"

definition startsWith :: "string \<Rightarrow> string \<Rightarrow> bool" where
  "startsWith s p = (take (length p) s = p)"

definition endsWith :: "string \<Rightarrow> string \<Rightarrow> bool" where
  "endsWith s p = (length p \<le> length s \<and> drop (length s - length p) s = p)"

text \<open>
  \<^verbatim>\<open>.replace(/^```(json)?/, '')\<close>: the fence at the start, and the token \<open>json\<close> when it
  follows at once.
\<close>

definition stripLeadingFence :: "string \<Rightarrow> string" where
  "stripLeadingFence s =
     (if startsWith s fence
      then (let r = drop 3 s in if startsWith r ''json'' then drop 4 r else r)
      else s)"

text \<open>\<^verbatim>\<open>.replace(/```$/, '')\<close>: a fence at the very end.\<close>

definition stripTrailingFence :: "string \<Rightarrow> string" where
  "stripTrailingFence s = (if endsWith s fence then take (length s - 3) s else s)"

text \<open>Lines 304 to 308 of popup.js: the string handed to \<open>JSON.parse\<close>.\<close>

definition cleanResponse :: "string \<Rightarrow> string" where
  "cleanResponse result =
     (let jsonStr = trim result
      in if startsWith jsonStr fence then stripTrailingFence (stripLeadingFence jsonStr)
         else jsonStr)"

subsection \<open>\<open>JSON.parse\<close>\<close>

text \<open>
  The host's \<open>JSON.parse\<close>, as a recursive-descent parser of the JSON grammar; \<open>None\<close> is
  the \<open>SyntaxError\<close>. A string of the model holds code units below 256, so an escape
  \<^verbatim>\<open>\uXXXX\<close> of a larger code unit has no value here and is rejected.
\<close>

definition isJsonWs :: "char \<Rightarrow> bool" where
  "isJsonWs c = (c = CHR 0x20 \<or> c = CHR 0x09 \<or> c = CHR 0x0A \<or> c = CHR 0x0D)"

definition skipWs :: "string \<Rightarrow> string" where
  "skipWs s = dropWhile isJsonWs s"

definition isDigit :: "char \<Rightarrow> bool" where
  "isDigit c = (48 \<le> (of_char c :: nat) \<and> (of_char c :: nat) \<le> 57)"

definition digitsValue :: "string \<Rightarrow> nat" where
  "digitsValue ds = foldl (\<lambda>n c. 10 * n + ((of_char c :: nat) - 48)) 0 ds"

definition hexDigit :: "char \<Rightarrow> nat option" where
  "hexDigit c =
     (let n = (of_char c :: nat)
      in if 48 \<le> n \<and> n \<le> 57 then Some (n - 48)
         else if 65 \<le> n \<and> n \<le> 70 then Some (n - 55)
         else if 97 \<le> n \<and> n \<le> 102 then Some (n - 87)
         else None)"

fun hexValue :: "string \<Rightarrow> nat \<Rightarrow> nat option" where
  "hexValue [] acc = Some acc"
| "hexValue (c # cs) acc = (case hexDigit c of None \<Rightarrow> None | Some d \<Rightarrow> hexValue cs (16 * acc + d))"

text \<open>The character a one-letter escape stands for.\<close>

definition unescape :: "char \<Rightarrow> char option" where
  "unescape e =
     (if e = dquote then Some dquote
      else if e = backslash then Some backslash
      else if e = CHR ''/'' then Some CHR ''/''
      else if e = CHR ''b'' then Some (CHR 0x08)
      else if e = CHR ''f'' then Some (CHR 0x0C)
      else if e = CHR ''n'' then Some (CHR 0x0A)
      else if e = CHR ''r'' then Some (CHR 0x0D)
      else if e = CHR ''t'' then Some (CHR 0x09)
      else None)"

text \<open>The characters of a string literal, behind its opening quote, up to the closing quote.\<close>

function parseChars :: "string \<Rightarrow> string \<Rightarrow> (string \<times> string) option" where
  "parseChars [] acc = None"
| "parseChars (c # cs) acc =
     (if c = dquote then Some (acc, cs)
      else if c = backslash then
        (case cs of
           [] \<Rightarrow> None
         | e # r \<Rightarrow>
             if e = CHR ''u'' then
               (if length r < 4 then None
                else (case hexValue (take 4 r) 0 of
                        None \<Rightarrow> None
                      | Some n \<Rightarrow> if n < 256 then parseChars (drop 4 r) (acc @ [char_of n]) else None))
             else (case unescape e of None \<Rightarrow> None | Some x \<Rightarrow> parseChars r (acc @ [x])))
      else if (of_char c :: nat) < 32 then None
      else parseChars cs (acc @ [c]))"
  by pat_completeness auto
termination
  by (relation "measure (\<lambda>(s, acc). length s)") auto

text \<open>
  A number: an optional minus, the integer part, an optional fraction, an optional exponent.
  \<open>parseNumber\<close> gives its exact value; a zero written with a minus is the negative zero.
\<close>

definition parseFraction :: "string \<Rightarrow> (rat \<times> string) option" where
  "parseFraction s =
     (if s \<noteq> [] \<and> hd s = CHR ''.''
      then (let ds = takeWhile isDigit (tl s)
            in if ds = [] then None
               else Some (of_nat (digitsValue ds) / 10 ^ length ds, dropWhile isDigit (tl s)))
      else Some (0, s))"

definition parseExponent :: "string \<Rightarrow> (int \<times> string) option" where
  "parseExponent s =
     (if s \<noteq> [] \<and> (hd s = CHR ''e'' \<or> hd s = CHR ''E'')
      then (let r = tl s;
                neg = (r \<noteq> [] \<and> hd r = CHR ''-'');
                r1 = (if r \<noteq> [] \<and> (hd r = CHR ''-'' \<or> hd r = CHR ''+'') then tl r else r);
                ds = takeWhile isDigit r1
            in if ds = [] then None
               else Some (if neg then - int (digitsValue ds) else int (digitsValue ds),
                          dropWhile isDigit r1))
      else Some (0, s))"

definition parseNumber :: "string \<Rightarrow> (rat \<times> string) option" where
  "parseNumber s =
     (let neg = (s \<noteq> [] \<and> hd s = CHR ''-'');
          s1 = (if neg then tl s else s);
          ds = (if s1 \<noteq> [] \<and> hd s1 = CHR ''0'' then ''0'' else takeWhile isDigit s1);
          s2 = drop (length ds) s1
      in if ds = [] then None
         else (case parseFraction s2 of
                 None \<Rightarrow> None
               | Some (fr, s3) \<Rightarrow>
                   (case parseExponent s3 of
                      None \<Rightarrow> None
                    | Some (ex, s4) \<Rightarrow>
                        let m = (of_nat (digitsValue ds) + fr)
                                  * (if 0 \<le> ex then 10 ^ nat ex else 1 / 10 ^ nat (- ex))
                        in Some (if neg then - m else m, s4))))"

text \<open>
  Storing a member of an object: a name that is already there keeps its place and takes the
  new value.
\<close>

fun setMember :: "(string \<times> jsval) list \<Rightarrow> string \<Rightarrow> jsval \<Rightarrow> (string \<times> jsval) list" where
  "setMember [] k v = [(k, v)]"
| "setMember ((k', v') # fs) k v = (if k' = k then (k, v) # fs else (k', v') # setMember fs k v)"

text \<open>
  Values, the elements of an array behind \<open>[\<close>, and the members of an object behind \<open>{\<close>.
  The first argument bounds the number of nested calls; \<open>JSON_parse\<close> gives enough for its
  input, since between two calls at least one character is consumed every second call.
\<close>

fun parseValue :: "nat \<Rightarrow> string \<Rightarrow> (jsval \<times> string) option"
  and parseElements :: "nat \<Rightarrow> string \<Rightarrow> jsval list \<Rightarrow> (jsval \<times> string) option"
  and parseMembers :: "nat \<Rightarrow> string \<Rightarrow> (string \<times> jsval) list \<Rightarrow> (jsval \<times> string) option"
where
  "parseValue 0 s = None"
| "parseValue (Suc n) s =
     (let s1 = skipWs s
      in if s1 = [] then None
         else if hd s1 = CHR ''{'' then
           (let r = skipWs (tl s1)
            in if r \<noteq> [] \<and> hd r = CHR ''}'' then Some (JObj [], tl r) else parseMembers n r [])
         else if hd s1 = CHR ''['' then
           (let r = skipWs (tl s1)
            in if r \<noteq> [] \<and> hd r = CHR '']'' then Some (JArr [], tl r) else parseElements n r [])
         else if hd s1 = dquote then
           (case parseChars (tl s1) [] of None \<Rightarrow> None | Some (str, r) \<Rightarrow> Some (JStr str, r))
         else if startsWith s1 ''true'' then Some (JBool True, drop 4 s1)
         else if startsWith s1 ''false'' then Some (JBool False, drop 5 s1)
         else if startsWith s1 ''null'' then Some (JNull, drop 4 s1)
         else (case parseNumber s1 of
                 None \<Rightarrow> None
               | Some (x, r) \<Rightarrow> Some (JNum (if x = 0 \<and> hd s1 = CHR ''-'' then NegZero else toDouble x), r)))"
| "parseElements 0 s acc = None"
| "parseElements (Suc n) s acc =
     (case parseValue n s of
        None \<Rightarrow> None
      | Some (v, r) \<Rightarrow>
          let r1 = skipWs r
          in if r1 \<noteq> [] \<and> hd r1 = CHR '','' then parseElements n (tl r1) (acc @ [v])
             else if r1 \<noteq> [] \<and> hd r1 = CHR '']'' then Some (JArr (acc @ [v]), tl r1)
             else None)"
| "parseMembers 0 s acc = None"
| "parseMembers (Suc n) s acc =
     (let s1 = skipWs s
      in if s1 \<noteq> [] \<and> hd s1 = dquote then
           (case parseChars (tl s1) [] of
              None \<Rightarrow> None
            | Some (k, r) \<Rightarrow>
                let r1 = skipWs r
                in if r1 \<noteq> [] \<and> hd r1 = CHR '':'' then
                     (case parseValue n (tl r1) of
                        None \<Rightarrow> None
                      | Some (v, r2) \<Rightarrow>
                          let r3 = skipWs r2
                          in if r3 \<noteq> [] \<and> hd r3 = CHR '','' then parseMembers n (tl r3) (setMember acc k v)
                             else if r3 \<noteq> [] \<and> hd r3 = CHR ''}'' then Some (JObj (setMember acc k v), tl r3)
                             else None)
                   else None)
         else None)"

definition JSON_parse :: "string \<Rightarrow> jsval option" where
  "JSON_parse s =
     (case parseValue (2 * length s + 2) s of
        None \<Rightarrow> None
      | Some (v, r) \<Rightarrow> if skipWs r = [] then Some v else None)"

text \<open>
  Lines 304 to 318 of popup.js: a response that does not parse makes the handler throw
  \<^verbatim>\<open>new Error("Failed to parse model output.")\<close>.
\<close>

definition parseResponse :: "string \<Rightarrow> jsval outcome" where
  "parseResponse result =
     (case JSON_parse (cleanResponse result) of
        None \<Rightarrow> Thrown (newError ''Failed to parse model output.'')
      | Some parsed \<Rightarrow> Returned parsed)"

section \<open>Replace phase: the function injected into the page\<close>

text \<open>The character class \<^verbatim>\<open>[.*+?^${}()|[\]\\]\<close>: the syntax characters of a pattern.\<close>

definition isRegexSpecial :: "char \<Rightarrow> bool" where
  "isRegexSpecial c =
     (c = CHR ''.'' \<or> c = CHR ''*'' \<or> c = CHR ''+'' \<or> c = CHR ''?'' \<or> c = CHR ''^'' \<or>
      c = CHR ''$'' \<or> c = CHR ''{'' \<or> c = CHR ''}'' \<or> c = CHR ''('' \<or> c = CHR '')'' \<or>
      c = CHR ''|'' \<or> c = CHR ''['' \<or> c = CHR '']'' \<or> c = backslash)"

text \<open>
  \<^verbatim>\<open>original.replace(/[.*+?^${}()|[\]\\]/g, '\\$&')\<close>: a backslash before every syntax
  character.
\<close>

definition escapeRegExp :: "string \<Rightarrow> string" where
  "escapeRegExp original = concat (map (\<lambda>c. if isRegexSpecial c then [backslash, c] else [c]) original)"

text \<open>
  \<^verbatim>\<open>new RegExp(source, 'gi')\<close> for a source made of plain characters and escaped syntax
  characters: the literal the pattern stands for. \<open>None\<close> is a source outside this
  fragment (the constructor may throw a \<open>SyntaxError\<close> there).
\<close>

fun literalPattern :: "string \<Rightarrow> string option" where
  "literalPattern [] = Some []"
| "literalPattern [c] = (if isRegexSpecial c then None else Some [c])"
| "literalPattern (c # d # r) =
     (if c = backslash then
        (if isRegexSpecial d then (case literalPattern r of None \<Rightarrow> None | Some l \<Rightarrow> Some (d # l))
         else None)
      else if isRegexSpecial c then None
      else (case literalPattern (d # r) of None \<Rightarrow> None | Some l \<Rightarrow> Some (c # l)))"

text \<open>
  The flag \<open>i\<close>: two characters match when their upper-case forms agree. Among the code
  units below 256 the letters \<open>a\<close> to \<open>z\<close> and the accented letters 224 to 254 (without the
  division sign 247) have an upper-case form of their own, 32 below.
\<close>

definition toUpperCase :: "char \<Rightarrow> char" where
  "toUpperCase c =
     (let n = (of_char c :: nat)
      in if (97 \<le> n \<and> n \<le> 122) \<or> (224 \<le> n \<and> n \<le> 254 \<and> n \<noteq> 247) then char_of (n - 32) else c)"

fun matchesAt :: "string \<Rightarrow> string \<Rightarrow> bool" where
  "matchesAt [] t = True"
| "matchesAt (p # ps) [] = False"
| "matchesAt (p # ps) (c # cs) = (toUpperCase p = toUpperCase c \<and> matchesAt ps cs)"

text \<open>\<^verbatim>\<open>regex.test(text)\<close> on a regular expression just built (\<open>lastIndex\<close> is 0).\<close>

fun regexTest :: "string \<Rightarrow> string \<Rightarrow> bool" where
  "regexTest p [] = matchesAt p []"
| "regexTest p (c # cs) = (matchesAt p (c # cs) \<or> regexTest p cs)"

text \<open>
  The replacement string of \<^verbatim>\<open>String.prototype.replace\<close> is a template: \<^verbatim>\<open>$$\<close> stands for
  a dollar sign, \<^verbatim>\<open>$&\<close> for the matched text, \<^verbatim>\<open>$`\<close> for the text before the match and
  \<^verbatim>\<open>$'\<close> for the text behind it. The pattern has no groups, so \<^verbatim>\<open>$1\<close> and \<^verbatim>\<open>$<name>\<close>
  stand for themselves.
\<close>

fun getSubstitution :: "string \<Rightarrow> string \<Rightarrow> string \<Rightarrow> string \<Rightarrow> string" where
  "getSubstitution matched before after [] = []"
| "getSubstitution matched before after [c] = [c]"
| "getSubstitution matched before after (c # d # r) =
     (if c = CHR ''$'' \<and> d = CHR ''$'' then CHR ''$'' # getSubstitution matched before after r
      else if c = CHR ''$'' \<and> d = CHR ''&'' then matched @ getSubstitution matched before after r
      else if c = CHR ''$'' \<and> d = CHR 0x60 then before @ getSubstitution matched before after r
      else if c = CHR ''$'' \<and> d = CHR 0x27 then after @ getSubstitution matched before after r
      else c # getSubstitution matched before after (d # r))"

text \<open>
  \<^verbatim>\<open>text.replace(regex, replacement)\<close> with the flag \<open>g\<close>: every match from the left, the next
  search starting behind the last match (one character further when the match is empty).
  \<open>before\<close> is the text already passed.
\<close>

function replaceFrom :: "string \<Rightarrow> string \<Rightarrow> string \<Rightarrow> string \<Rightarrow> string" where
  "replaceFrom p replacement before [] =
     (if p = [] then getSubstitution [] before [] replacement else [])"
| "replaceFrom p replacement before (c # cs) =
     (if matchesAt p (c # cs) then
        (if p = [] then
           getSubstitution [] before (c # cs) replacement @ c # replaceFrom p replacement (before @ [c]) cs
         else
           getSubstitution (take (length p) (c # cs)) before (drop (length p) (c # cs)) replacement
             @ replaceFrom p replacement (before @ take (length p) (c # cs)) (drop (length p) (c # cs)))
      else c # replaceFrom p replacement (before @ [c]) cs)"
  by pat_completeness auto
termination
  by (relation "measure (\<lambda>(p, replacement, before, t). length t)") auto

definition stringReplace :: "string \<Rightarrow> string \<Rightarrow> string \<Rightarrow> string" where
  "stringReplace p replacement t = replaceFrom p replacement [] t"

text \<open>
  The loop over \<^verbatim>\<open>Object.entries(replacementsMap)\<close>, lines 404 to 418 of popup.js, with the
  two variables it updates, \<open>text\<close> and \<open>modified\<close>.
\<close>

fun replaceEntries :: "(string \<times> string) list \<Rightarrow> string \<Rightarrow> bool \<Rightarrow> (string \<times> bool) outcome" where
  "replaceEntries [] t modified = Returned (t, modified)"
| "replaceEntries ((original, replacement) # es) t modified =
     (case literalPattern (escapeRegExp original) of
        None \<Rightarrow> Thrown (newError ''SyntaxError'')
      | Some regex \<Rightarrow>
          if regexTest regex t then replaceEntries es (stringReplace regex replacement t) True
          else replaceEntries es t modified)"

text \<open>
  The body of the loop over the text nodes, for one node: \<open>Some\<close> the new value when
  \<open>node.nodeValue\<close> is assigned, \<open>None\<close> when the node is left alone.
\<close>

definition rewriteNode :: "(string \<times> string) list \<Rightarrow> string \<Rightarrow> string option outcome" where
  "rewriteNode replacementsMap nodeValue =
     (case replaceEntries replacementsMap nodeValue False of
        Thrown e \<Rightarrow> Thrown e
      | Returned (t, modified) \<Rightarrow> Returned (if modified then Some t else None))"

section \<open>Model sessions\<close>

text \<open>
  What happens to sessions, in order. A session is named by the number of sessions created
  before it.
\<close>

datatype event =
    Created nat
  | Summarized nat string
  | Prompted nat string
  | Destroyed nat

fun isCreated :: "event \<Rightarrow> bool" where
  "isCreated (Created n) = True"
| "isCreated e = False"

definition sessionsCreated :: "event list \<Rightarrow> nat" where
  "sessionsCreated trace = length (filter isCreated trace)"

text \<open>
  The host's model: whether creating the session with a given number succeeds, and what a
  session answers to \<open>summarize\<close> and to \<open>prompt\<close>. \<open>destroy\<close> does not throw.
\<close>

record modelHost =
  createSession :: "nat \<Rightarrow> unit outcome"
  summarize :: "nat \<Rightarrow> string \<Rightarrow> string outcome"
  prompt :: "nat \<Rightarrow> string \<Rightarrow> string outcome"

subsection \<open>\<open>runSummarization\<close> (part_000, lines 43 to 90)\<close>

text \<open>\<^verbatim>\<open>chunkSummaries.join('\n\n')\<close>\<close>

fun joinWith :: "string \<Rightarrow> string list \<Rightarrow> string" where
  "joinWith sep [] = []"
| "joinWith sep [x] = x"
| "joinWith sep (x # y # ys) = x @ sep @ joinWith sep (y # ys)"

text \<open>The loop inside \<^verbatim>\<open>try\<close>: it stops at the first \<open>summarize\<close> that throws.\<close>

fun summarizeChunks ::
  "modelHost \<Rightarrow> nat \<Rightarrow> string list \<Rightarrow> string list \<Rightarrow> event list \<Rightarrow> string list outcome \<times> event list"
where
  "summarizeChunks h sid [] chunkSummaries trace = (Returned chunkSummaries, trace)"
| "summarizeChunks h sid (chunk # cs) chunkSummaries trace =
     (case summarize h sid chunk of
        Thrown e \<Rightarrow> (Thrown e, trace @ [Summarized sid chunk])
      | Returned summary \<Rightarrow>
          summarizeChunks h sid cs (chunkSummaries @ [summary]) (trace @ [Summarized sid chunk]))"

text \<open>
  The recursion has no bound in the source. The first argument bounds the number of
  passes; \<open>None\<close> is a run that needs more.
\<close>

fun runSummarization ::
  "nat \<Rightarrow> modelHost \<Rightarrow> string \<Rightarrow> event list \<Rightarrow> (string outcome \<times> event list) option"
where
  "runSummarization 0 h t trace = None"
| "runSummarization (Suc n) h t trace =
     (if length t \<le> CHUNK_SIZE then
        (case createSession h (sessionsCreated trace) of
           Thrown e \<Rightarrow> Some (Thrown e, trace)
         | Returned u \<Rightarrow>
             let sid = sessionsCreated trace;
                 trace1 = trace @ [Created sid, Summarized sid t]
             in (case summarize h sid t of
                   Thrown e \<Rightarrow> Some (Thrown e, trace1)
                 | Returned result \<Rightarrow> Some (Returned result, trace1 @ [Destroyed sid])))
      else
        (let chunks = chunkText t
         in case createSession h (sessionsCreated trace) of
              Thrown e \<Rightarrow> Some (Thrown e, trace)
            | Returned u \<Rightarrow>
                let sid = sessionsCreated trace;
                    tried = summarizeChunks h sid chunks [] (trace @ [Created sid]);
                    trace2 = snd tried @ [Destroyed sid]
                in (case fst tried of
                      Thrown e \<Rightarrow> Some (Thrown e, trace2)
                    | Returned chunkSummaries \<Rightarrow>
                        runSummarization n h (joinWith [CHR 0x0A, CHR 0x0A] chunkSummaries) trace2)))"

subsection \<open>The click handler of the scan button (popup.js, lines 258 to 341)\<close>

text \<open>What the handler reads of the browser: the active tab's address, if there is a tab, and the page's text.\<close>

record scanEnv =
  tabUrl :: "string option"
  bodyText :: string

text \<open>The prompt, lines 287 to 298: a template with the page text in it.\<close>

definition promptFor :: "string \<Rightarrow> string" where
  "promptFor pageText =
     concat (map (\<lambda>l. CHR 0x0A # replicate 12 CHR '' '' @ l)
       [''Task: Identify a few nouns, verbs, and adjectives from the text below.'',
        ''Output JSON only with format:'',
        ''{'',
        ''  '' @ quoted ''nouns'' @ '': ['' @ quoted ''noun1'' @ '', '' @ quoted ''noun2'' @ ''],'',
        ''  '' @ quoted ''verbs'' @ '': ['' @ quoted ''verb1'' @ '', '' @ quoted ''verb2'' @ ''],'',
        ''  '' @ quoted ''adjectives'' @ '': ['' @ quoted ''adj1'' @ '', '' @ quoted ''adj2'' @ '']'',
        ''}'',
        ''Find at most 3 of each category if possible.'',
        ''Text:'',
        pageText,
        []])"

text \<open>
  \<open>renderWordsForm\<close>, lines 343 to 369: one input for every word of the three categories,
  given by the word and its category. Reading a category of \<open>null\<close> throws, and so does
  \<open>forEach\<close> on a value that is not an array.
\<close>

definition renderCategory :: "jsval \<Rightarrow> string \<Rightarrow> (jsval \<times> string) list outcome" where
  "renderCategory wordsData cat =
     (case getProp wordsData cat of
        Thrown e \<Rightarrow> Thrown e
      | Returned words \<Rightarrow>
          if \<not> truthy words \<or>
             (case words of
                JArr ws \<Rightarrow> ws = []
              | JObj fs \<Rightarrow> (case map_of fs ''length'' of Some (JNum n) \<Rightarrow> isZero n | _ \<Rightarrow> False)
              | _ \<Rightarrow> False)
          then Returned []
          else (case words of
                  JArr ws \<Rightarrow> Returned (map (\<lambda>originalWord. (originalWord, cat)) ws)
                | _ \<Rightarrow> Thrown (newError ''TypeError'')))"

fun renderCategories :: "jsval \<Rightarrow> string list \<Rightarrow> (jsval \<times> string) list outcome" where
  "renderCategories wordsData [] = Returned []"
| "renderCategories wordsData (cat # cats) =
     (case renderCategory wordsData cat of
        Thrown e \<Rightarrow> Thrown e
      | Returned inputs \<Rightarrow>
          (case renderCategories wordsData cats of
             Thrown e \<Rightarrow> Thrown e
           | Returned others \<Rightarrow> Returned (inputs @ others)))"

definition renderWordsForm :: "jsval \<Rightarrow> (jsval \<times> string) list outcome" where
  "renderWordsForm wordsData = renderCategories wordsData [''nouns'', ''verbs'', ''adjectives'']"

text \<open>What the popup shows when the handler is done: the form, or the caught error.\<close>

datatype scanResult = WordsShown "(jsval \<times> string) list" | ErrorShown jsval

definition scanHandler :: "window \<Rightarrow> modelHost \<Rightarrow> scanEnv \<Rightarrow> event list \<Rightarrow> scanResult \<times> event list" where
  "scanHandler w h env trace =
     (case tabUrl env of
        None \<Rightarrow> (ErrorShown (newError ''Cannot run on this page.''), trace)
      | Some url \<Rightarrow>
          if \<not> startsWith url ''http'' \<and> \<not> startsWith url ''file''
          then (ErrorShown (newError ''Cannot run on this page.''), trace)
          else
            (let pageText = take 3000 (bodyText env)
             in case getApiObject w
                       \<lparr>key = ''LanguageModel'', checkArgs = JUndefined,
                        namespace = Some ''ai'', fallback = None\<rparr> of
                  Thrown e \<Rightarrow> (ErrorShown e, trace)
                | Returned found \<Rightarrow>
                    if \<not> truthy (api found)
                    then (ErrorShown (newError ''Language Model API not found.''), trace)
                    else
                      (case createSession h (sessionsCreated trace) of
                         Thrown e \<Rightarrow> (ErrorShown e, trace)
                       | Returned u \<Rightarrow>
                           let sid = sessionsCreated trace;
                               trace1 = trace @ [Created sid, Prompted sid (promptFor pageText)]
                           in (case prompt h sid (promptFor pageText) of
                                 Thrown e \<Rightarrow> (ErrorShown e, trace1)
                               | Returned result \<Rightarrow>
                                   (case parseResponse result of
                                      Thrown e \<Rightarrow> (ErrorShown e, trace1)
                                    | Returned parsed \<Rightarrow>
                                        (case renderWordsForm parsed of
                                           Thrown e \<Rightarrow> (ErrorShown e, trace1)
                                         | Returned form \<Rightarrow>
                                             (WordsShown form, trace1 @ [Destroyed sid])))))))"

section \<open>Hosts and handles used as concrete inputs\<close>

text \<open>
  A host that answers every call alike, and one that accepts a call only without
  arguments. Both reject every thenable.
\<close>

definition constHost :: "jsval outcome \<Rightarrow> host" where
  "constHost r =
     \<lparr>awaitCall = (\<lambda>fid as. r), adoptThenable = (\<lambda>t. Thrown (newError ''rejected''))\<rparr>"

definition noArgHost :: "jsval outcome \<Rightarrow> host" where
  "noArgHost r =
     \<lparr>awaitCall = (\<lambda>fid as. if as = [] then r else Thrown (newError ''TypeError'')),
      adoptThenable = (\<lambda>t. Thrown (newError ''rejected''))\<rparr>"

text \<open>
  A capability such as \<open>Translator\<close>: a function object with the static methods
  \<open>availability\<close> and \<open>create\<close>; and the \<open>checkArgs\<close> of the \<open>Translator\<close> descriptor.
\<close>

definition exampleHandle :: jsval where
  "exampleHandle = JFun 0 [(''availability'', JFun 1 []), (''create'', JFun 2 [])]"

definition exampleArgs :: jsval where
  "exampleArgs = JObj [(''sourceLanguage'', JStr ''en''), (''targetLanguage'', JStr ''es'')]"

text \<open>
  A model whose sessions throw on every call, and one that answers a prompt in prose; a
  global object with \<open>ai.LanguageModel\<close>; a page.
\<close>

definition throwingModel :: modelHost where
  "throwingModel =
     \<lparr>createSession = (\<lambda>n. Returned ()),
      summarize = (\<lambda>n t. Thrown (newError ''The model crashed.'')),
      prompt = (\<lambda>n t. Thrown (newError ''The model crashed.''))\<rparr>"

definition chattyModel :: modelHost where
  "chattyModel =
     \<lparr>createSession = (\<lambda>n. Returned ()),
      summarize = (\<lambda>n t. Returned t),
      prompt = (\<lambda>n t. Returned ''Sure! Here are the words you asked for.'')\<rparr>"

definition aiWindow :: window where
  "aiWindow = (\<lambda>k. if k = ''ai'' then JObj [(''LanguageModel'', exampleHandle)] else JUndefined)"

definition examplePage :: scanEnv where
  "examplePage = \<lparr>tabUrl = Some ''https://example.org/'', bodyText = ''The cat sat.''\<rparr>"

text \<open>The response of the extraction example: the object in a fence with the tag \<open>json\<close>.\<close>

definition exampleResponse :: string where
  "exampleResponse =
     fence @ ''json'' @ [CHR 0x0A] @
     ''{'' @ quoted ''nouns'' @ '':['' @ quoted ''cat'' @ ''],'' @ quoted ''verbs'' @ '':[],'' @
     quoted ''adjectives'' @ '':['' @ quoted ''big'' @ '']}'' @ [CHR 0x0A] @ fence"

section \<open>Properties of the chunk splitting\<close>

subsection \<open>What the sentence pattern matches\<close>

lemma matchSentences_no_terminator:
  "\<forall>x\<in>set cs. \<not> isTerminator x \<Longrightarrow> matchSentences cs = []"
proof (induction cs)
  case Nil
  then show ?case by simp
next
  case (Cons c cs)
  then have "dropWhile (\<lambda>x. \<not> isTerminator x) (c # cs) = []" by simp
  with Cons show ?case by (simp add: Let_def)
qed

text \<open>
  A run of non-terminators followed by a maximal run of terminators is one match, and the
  scan goes on behind it.
\<close>

lemma matchSentences_sentence:
  assumes "body \<noteq> []" "\<forall>x\<in>set body. \<not> isTerminator x"
    and "terms \<noteq> []" "\<forall>x\<in>set terms. isTerminator x"
    and "rest = [] \<or> \<not> isTerminator (hd rest)"
  shows "matchSentences (body @ terms @ rest) = (body @ terms) # matchSentences rest"
proof -
  obtain c cs where cs: "body @ terms @ rest = c # cs"
    using assms(1) by (cases body) auto
  obtain t ts where ts: "terms = t # ts"
    using assms(3) by (cases terms) auto
  have t: "isTerminator t" using assms(4) ts by simp
  have tw: "takeWhile (\<lambda>x. \<not> isTerminator x) (body @ terms @ rest) = body"
    using assms(2) t ts by simp
  have dw: "dropWhile (\<lambda>x. \<not> isTerminator x) (body @ terms @ rest) = terms @ rest"
    using assms(2) t ts by simp
  have tw2: "takeWhile isTerminator (terms @ rest) = terms"
    using assms(4,5) by (cases rest) auto
  have dw2: "dropWhile isTerminator (terms @ rest) = rest"
    using assms(4,5) by (cases rest) auto
  from matchSentences.simps(2) [of c cs] show ?thesis
    unfolding cs[symmetric] tw dw Let_def tw2 dw2 using assms(1,3) by simp
qed

lemma matchSentences_two:
  assumes "\<not> isTerminator a" "\<not> isTerminator b" "0 < m" "0 < n"
  shows "matchSentences (replicate m a @ ''.'' @ replicate n b @ ''.'')
           = [replicate m a @ ''.'', replicate n b @ ''.'']"
proof -
  have t: "\<forall>x\<in>set ''.''. isTerminator x" by (simp add: isTerminator_def)
  have 1: "matchSentences (replicate n b @ ''.'' @ []) = (replicate n b @ ''.'') # matchSentences []"
    by (rule matchSentences_sentence) (use assms t in simp_all)
  have "matchSentences (replicate m a @ ''.'' @ (replicate n b @ ''.''))
          = (replicate m a @ ''.'') # matchSentences (replicate n b @ ''.'')"
    by (rule matchSentences_sentence) (use assms t in \<open>simp_all add: hd_append\<close>)
  with 1 show ?thesis by simp
qed

text \<open>Text behind the last terminator is in no match.\<close>

lemma matchSentences_tail_lost:
  assumes "\<not> isTerminator a" "\<not> isTerminator b" "0 < m"
  shows "matchSentences (replicate m a @ ''.'' @ [b]) = [replicate m a @ ''.'']"
proof -
  have t: "\<forall>x\<in>set ''.''. isTerminator x" by (simp add: isTerminator_def)
  have 1: "matchSentences [b] = []"
    by (rule matchSentences_no_terminator) (use assms in simp)
  have "matchSentences (replicate m a @ ''.'' @ [b]) = (replicate m a @ ''.'') # matchSentences [b]"
    by (rule matchSentences_sentence) (use assms t in simp_all)
  with 1 show ?thesis by simp
qed

subsection \<open>The packing loop\<close>

lemma packSentences_bound:
  "packSentences ss chunks cur = (cs', cur') \<Longrightarrow> \<forall>s\<in>set ss. length s \<le> CHUNK_SIZE \<Longrightarrow>
   \<forall>c\<in>set chunks. length c \<le> CHUNK_SIZE \<Longrightarrow> length cur \<le> CHUNK_SIZE \<Longrightarrow>
   (\<forall>c\<in>set cs'. length c \<le> CHUNK_SIZE) \<and> length cur' \<le> CHUNK_SIZE"
proof (induction ss arbitrary: chunks cur)
  case Nil
  then show ?case by simp
next
  case (Cons s ss)
  have ss: "\<forall>s\<in>set ss. length s \<le> CHUNK_SIZE" and s: "length s \<le> CHUNK_SIZE"
    using Cons.prems(2) by simp_all
  show ?case
  proof (cases "length (cur @ s) > CHUNK_SIZE")
    case True
    with Cons.prems(1) have p: "packSentences ss (chunks @ [cur]) s = (cs', cur')" by simp
    have c: "\<forall>c\<in>set (chunks @ [cur]). length c \<le> CHUNK_SIZE"
      using Cons.prems(3,4) by simp
    show ?thesis by (rule Cons.IH [OF p ss c s])
  next
    case False
    with Cons.prems(1) have p: "packSentences ss chunks (cur @ s) = (cs', cur')" by simp
    have l: "length (cur @ s) \<le> CHUNK_SIZE" using False by simp
    show ?thesis by (rule Cons.IH [OF p ss Cons.prems(3) l])
  qed
qed

text \<open>The packing loop neither drops nor reorders what the sentences hold.\<close>

lemma packSentences_concat:
  "concat (fst (packSentences ss chunks cur)) @ snd (packSentences ss chunks cur)
     = concat chunks @ cur @ concat ss"
  by (induction ss arbitrary: chunks cur) simp_all

lemma chunkSentences_concat: "concat (chunkSentences ss) = concat ss"
  using packSentences_concat [of ss "[]" "[]"]
  by (cases "snd (packSentences ss [] []) = []") (simp_all add: chunkSentences_def flushChunk_def)

lemma chunkText_unbroken:
  assumes "\<forall>x\<in>set t. \<not> isTerminator x" "length t > CHUNK_SIZE"
  shows "chunkText t = [[], t]"
proof -
  have "matchSentences t = []"
    using assms(1) by (rule matchSentences_no_terminator)
  moreover have "t \<noteq> []" using assms(2) by auto
  ultimately show ?thesis using assms(2)
    by (simp add: chunkText_def chunkSentences_def flushChunk_def splitSentences_def)
qed

subsection \<open>Where the chunks begin, and what they hold\<close>

text \<open>Every match begins with a non-terminator and ends with a terminator.\<close>

lemma matchSentences_shape:
  "s \<in> set (matchSentences t) \<Longrightarrow> s \<noteq> [] \<and> \<not> isTerminator (hd s) \<and> isTerminator (last s)"
proof (induction t rule: matchSentences.induct)
  case 1
  then show ?case by simp
next
  case (2 c cs)
  let ?body = "takeWhile (\<lambda>x. \<not> isTerminator x) (c # cs)"
  let ?rest = "dropWhile (\<lambda>x. \<not> isTerminator x) (c # cs)"
  show ?case
  proof (cases "?body = [] \<or> ?rest = []")
    case True
    with "2.prems" have "s \<in> set (matchSentences cs)" by (simp add: Let_def)
    with "2.IH"(1) [OF refl refl True] show ?thesis .
  next
    case False
    with "2.prems" consider (here) "s = ?body @ takeWhile isTerminator ?rest"
      | (later) "s \<in> set (matchSentences (dropWhile isTerminator ?rest))"
      by (auto simp add: Let_def)
    then show ?thesis
    proof cases
      case here
      from False have b: "?body \<noteq> []" and r: "?rest \<noteq> []" by simp_all
      from b have "hd ?body \<in> set ?body" by (rule hd_in_set)
      then have h: "\<not> isTerminator (hd ?body)" by (rule set_takeWhileD [THEN conjunct2])
      from r have "isTerminator (hd ?rest)" using hd_dropWhile [of "\<lambda>x. \<not> isTerminator x" "c # cs"] by blast
      with r have tw: "takeWhile isTerminator ?rest \<noteq> []" by (cases ?rest) simp_all
      then have "last (takeWhile isTerminator ?rest) \<in> set (takeWhile isTerminator ?rest)"
        by (rule last_in_set)
      then have l: "isTerminator (last (takeWhile isTerminator ?rest))"
        by (rule set_takeWhileD [THEN conjunct2])
      from b h tw l show ?thesis unfolding here by simp
    next
      case later
      with "2.IH"(2) [OF refl refl False] show ?thesis .
    qed
  qed
qed

lemma packSentences_starts:
  assumes "packSentences ss chunks cur = (cs', cur')"
    and "\<forall>s\<in>set ss. s \<noteq> [] \<and> \<not> isTerminator (hd s)"
    and "\<forall>c\<in>set chunks. c \<noteq> [] \<longrightarrow> \<not> isTerminator (hd c)"
    and "cur \<noteq> [] \<longrightarrow> \<not> isTerminator (hd cur)"
  shows "(\<forall>c\<in>set cs'. c \<noteq> [] \<longrightarrow> \<not> isTerminator (hd c)) \<and> (cur' \<noteq> [] \<longrightarrow> \<not> isTerminator (hd cur'))"
  using assms
proof (induction ss arbitrary: chunks cur)
  case Nil
  then show ?case by simp
next
  case (Cons s ss)
  have ss: "\<forall>s\<in>set ss. s \<noteq> [] \<and> \<not> isTerminator (hd s)" and s: "s \<noteq> [] \<longrightarrow> \<not> isTerminator (hd s)"
    using Cons.prems(2) by simp_all
  show ?case
  proof (cases "length (cur @ s) > CHUNK_SIZE")
    case True
    with Cons.prems(1) have p: "packSentences ss (chunks @ [cur]) s = (cs', cur')" by simp
    have c: "\<forall>c\<in>set (chunks @ [cur]). c \<noteq> [] \<longrightarrow> \<not> isTerminator (hd c)"
      using Cons.prems(3,4) by simp
    show ?thesis by (rule Cons.IH [OF p ss c s])
  next
    case False
    with Cons.prems(1) have p: "packSentences ss chunks (cur @ s) = (cs', cur')" by simp
    have l: "cur @ s \<noteq> [] \<longrightarrow> \<not> isTerminator (hd (cur @ s))"
      using Cons.prems(2,4) by (cases cur) simp_all
    show ?thesis by (rule Cons.IH [OF p ss Cons.prems(3) l])
  qed
qed

text \<open>
  When the pattern matches at all, no chunk begins with a terminator: a chunk never begins
  inside a run of terminators.
\<close>

lemma chunkText_boundaries:
  assumes "matchSentences t \<noteq> []" "c \<in> set (chunkText t)" "c \<noteq> []"
  shows "\<not> isTerminator (hd c)"
proof -
  have sp: "splitSentences t = matchSentences t"
    using assms(1) by (cases "matchSentences t") (simp_all add: splitSentences_def)
  obtain cs' cur' where p: "packSentences (matchSentences t) [] [] = (cs', cur')"
    by (cases "packSentences (matchSentences t) [] []") auto
  have "\<forall>s\<in>set (matchSentences t). s \<noteq> [] \<and> \<not> isTerminator (hd s)"
    using matchSentences_shape by blast
  from packSentences_starts [OF p this]
  have "(\<forall>c\<in>set cs'. c \<noteq> [] \<longrightarrow> \<not> isTerminator (hd c)) \<and> (cur' \<noteq> [] \<longrightarrow> \<not> isTerminator (hd cur'))"
    by simp
  moreover have "c \<in> set cs' \<or> c = cur'"
    using assms(2) by (auto simp add: chunkText_def chunkSentences_def flushChunk_def sp p split: if_splits)
  ultimately show ?thesis using assms(3) by blast
qed

lemma chunkText_concat: "concat (chunkText t) = concat (splitSentences t)"
  by (simp add: chunkText_def chunkSentences_concat)

text \<open>
  A text that begins with a non-terminator and ends with a terminator is the concatenation
  of its matches, and so of its chunks.
\<close>

lemma matchSentences_concat:
  "t = [] \<or> (\<not> isTerminator (hd t) \<and> isTerminator (last t)) \<Longrightarrow> concat (matchSentences t) = t"
proof (induction t rule: matchSentences.induct)
  case 1
  then show ?case by simp
next
  case (2 c cs)
  define body where "body = takeWhile (\<lambda>x. \<not> isTerminator x) (c # cs)"
  define rest where "rest = dropWhile (\<lambda>x. \<not> isTerminator x) (c # cs)"
  define terms where "terms = takeWhile isTerminator rest"
  define tail where "tail = dropWhile isTerminator rest"
  from "2.prems" have c: "\<not> isTerminator c" and l: "isTerminator (last (c # cs))" by simp_all
  have b: "body \<noteq> []" unfolding body_def using c by simp
  have "last (c # cs) \<in> set (c # cs)" by (rule last_in_set) simp
  with l have "\<exists>x\<in>set (c # cs). isTerminator x" by blast
  then have r: "rest \<noteq> []" unfolding rest_def by (simp only: dropWhile_eq_Nil_conv) blast
  have split1: "body @ rest = c # cs" unfolding body_def rest_def by (rule takeWhile_dropWhile_id)
  have split2: "terms @ tail = rest" unfolding terms_def tail_def by (rule takeWhile_dropWhile_id)
  have whole: "body @ terms @ tail = c # cs" using split1 split2 by simp
  have tl: "tail = [] \<or> (\<not> isTerminator (hd tail) \<and> isTerminator (last tail))"
  proof (cases "tail = []")
    case True
    then show ?thesis by simp
  next
    case False
    then have "\<not> isTerminator (hd tail)" unfolding tail_def by (rule hd_dropWhile)
    moreover have "last (body @ terms @ tail) = last tail" using False by simp
    ultimately show ?thesis using l unfolding whole [symmetric] by simp
  qed
  from b r have n: "\<not> (body = [] \<or> rest = [])" by simp
  have "concat (matchSentences tail) = tail"
    unfolding tail_def by (rule "2.IH"(2) [OF body_def rest_def n tl [unfolded tail_def]])
  moreover have "matchSentences (c # cs) = (body @ terms) # matchSentences tail"
    using n unfolding matchSentences.simps body_def [symmetric] rest_def [symmetric] Let_def
      terms_def [symmetric] tail_def [symmetric] by simp
  ultimately have "concat (matchSentences (c # cs)) = body @ terms @ tail"
    by simp
  with whole show ?case by simp
qed

lemma chunkText_reconstructs:
  assumes "t \<noteq> []" "\<not> isTerminator (hd t)" "isTerminator (last t)"
  shows "concat (chunkText t) = t"
proof -
  have m: "concat (matchSentences t) = t"
    using assms(2,3) by (intro matchSentences_concat disjI2 conjI)
  with assms(1) have "matchSentences t \<noteq> []" by auto
  then have "splitSentences t = matchSentences t"
    by (cases "matchSentences t") (simp_all add: splitSentences_def)
  with m show ?thesis by (simp add: chunkText_concat)
qed

subsection \<open>Claim C2: the chunks reconstruct the text\<close>

text \<open>
  Claim C2 says that for a text longer than \<open>CHUNK_SIZE\<close> no chunk boundary lies inside a
  run of terminators and the chunks, concatenated in order, are the text again. The first
  holds (lemma \<open>chunkText_boundaries\<close>). The second holds for a text that begins with a
  non-terminator and ends with a terminator (lemma \<open>chunkText_reconstructs\<close>), but not for
  every text: the sentence pattern matches only runs that end in a terminator, so text
  behind the last terminator is in no sentence and in no chunk. For the 4002 characters
  \<open>a...a.b\<close> (4000 times \<open>a\<close>) the chunks are the empty string and \<open>a...a.\<close>, and the final
  \<open>b\<close> is lost.
\<close>

theorem chunkText_drops_unterminated_tail:
  "CHUNK_SIZE < length (replicate 4000 CHR ''a'' @ ''.b'') \<and>
   chunkText (replicate 4000 CHR ''a'' @ ''.b'') = [[], replicate 4000 CHR ''a'' @ ''.''] \<and>
   concat (chunkText (replicate 4000 CHR ''a'' @ ''.b'')) \<noteq> replicate 4000 CHR ''a'' @ ''.b''"
proof -
  have "matchSentences (replicate 4000 CHR ''a'' @ ''.'' @ [CHR ''b'']) = [replicate 4000 CHR ''a'' @ ''.'']"
    by (rule matchSentences_tail_lost) (simp_all add: isTerminator_def)
  then have "chunkText (replicate 4000 CHR ''a'' @ ''.b'') = [[], replicate 4000 CHR ''a'' @ ''.'']"
    by (simp add: chunkText_def chunkSentences_def flushChunk_def splitSentences_def CHUNK_SIZE_def)
  then show ?thesis by (simp add: CHUNK_SIZE_def)
qed

subsection \<open>Claim C4: the length of a chunk\<close>

text \<open>
  Claim C4 as stated (every chunk is at most \<open>CHUNK_SIZE\<close> long, for every text) fails:
  the loop never splits a sentence, so a sentence longer than \<open>CHUNK_SIZE\<close> is a chunk of
  its own. For 4001 times \<open>a\<close> nothing matches, the whole text is the one sentence, and
  the chunks are the empty string and the text.
\<close>

theorem chunk_length_counterexample:
  "chunkText (replicate 4001 CHR ''a'') = [[], replicate 4001 CHR ''a''] \<and>
   CHUNK_SIZE < length (replicate 4001 CHR ''a'')"
proof -
  have "chunkText (replicate 4001 CHR ''a'') = [[], replicate 4001 CHR ''a'']"
    by (rule chunkText_unbroken) (simp_all add: isTerminator_def CHUNK_SIZE_def)
  then show ?thesis by (simp add: CHUNK_SIZE_def)
qed

text \<open>What has been pushed stays, and a running chunk that is too long is pushed as it is.\<close>

lemma packSentences_keeps:
  "packSentences ss chunks cur = (cs', cur') \<Longrightarrow> set chunks \<subseteq> set cs'"
proof (induction ss arbitrary: chunks cur)
  case Nil
  then show ?case by simp
next
  case (Cons s ss)
  show ?case
  proof (cases "length (cur @ s) > CHUNK_SIZE")
    case True
    with Cons.prems have p: "packSentences ss (chunks @ [cur]) s = (cs', cur')" by simp
    from Cons.IH [OF p] show ?thesis by simp
  next
    case False
    with Cons.prems have p: "packSentences ss chunks (cur @ s) = (cs', cur')" by simp
    from Cons.IH [OF p] show ?thesis .
  qed
qed

lemma packSentences_long_current:
  "packSentences ss chunks cur = (cs', cur') \<Longrightarrow> CHUNK_SIZE < length cur \<Longrightarrow>
   cur \<in> set cs' \<or> cur' = cur"
proof (cases ss)
  case Nil
  assume "packSentences ss chunks cur = (cs', cur')"
  with Nil show ?thesis by simp
next
  case (Cons s rest)
  assume p: "packSentences ss chunks cur = (cs', cur')" and l: "CHUNK_SIZE < length cur"
  from l have "length (cur @ s) > CHUNK_SIZE" by simp
  with p Cons have "packSentences rest (chunks @ [cur]) s = (cs', cur')" by simp
  from packSentences_keeps [OF this] show ?thesis by simp
qed

lemma packSentences_long_sentence:
  "packSentences ss chunks cur = (cs', cur') \<Longrightarrow> s \<in> set ss \<Longrightarrow> CHUNK_SIZE < length s \<Longrightarrow>
   s \<in> set cs' \<or> cur' = s"
proof (induction ss arbitrary: chunks cur)
  case Nil
  then show ?case by simp
next
  case (Cons x ss)
  show ?case
  proof (cases "s = x")
    case True
    with Cons.prems(3) have "length (cur @ x) > CHUNK_SIZE" by simp
    with Cons.prems(1) have p: "packSentences ss (chunks @ [cur]) s = (cs', cur')"
      using True by simp
    show ?thesis by (rule packSentences_long_current [OF p Cons.prems(3)])
  next
    case False
    with Cons.prems(2) have m: "s \<in> set ss" by simp
    show ?thesis
    proof (cases "length (cur @ x) > CHUNK_SIZE")
      case True
      with Cons.prems(1) have p: "packSentences ss (chunks @ [cur]) x = (cs', cur')" by simp
      show ?thesis by (rule Cons.IH [OF p m Cons.prems(3)])
    next
      case False
      with Cons.prems(1) have p: "packSentences ss chunks (cur @ x) = (cs', cur')" by simp
      show ?thesis by (rule Cons.IH [OF p m Cons.prems(3)])
    qed
  qed
qed

text \<open>
  Claim C4, amended: when every sentence of the text is at most \<open>CHUNK_SIZE\<close> long, every
  chunk of the greedy packing is at most \<open>CHUNK_SIZE\<close> long; and a sentence longer than
  \<open>CHUNK_SIZE\<close> is never split and becomes a chunk of its own: it is, whole and alone, one
  of the chunks.
\<close>

theorem chunk_length_bound:
  "((\<forall>s\<in>set (splitSentences t). length s \<le> CHUNK_SIZE) \<longrightarrow>
      (\<forall>c\<in>set (chunkText t). length c \<le> CHUNK_SIZE)) \<and>
   (\<forall>s\<in>set (splitSentences t). CHUNK_SIZE < length s \<longrightarrow> s \<in> set (chunkText t))"
proof -
  obtain cs' cur' where p: "packSentences (splitSentences t) [] [] = (cs', cur')"
    by (cases "packSentences (splitSentences t) [] []") auto
  have c: "chunkText t = (if cur' \<noteq> [] then cs' @ [cur'] else cs')"
    by (simp add: chunkText_def chunkSentences_def flushChunk_def p)
  have short: "\<forall>c\<in>set (chunkText t). length c \<le> CHUNK_SIZE"
    if a: "\<forall>s\<in>set (splitSentences t). length s \<le> CHUNK_SIZE"
  proof -
    have "(\<forall>c\<in>set cs'. length c \<le> CHUNK_SIZE) \<and> length cur' \<le> CHUNK_SIZE"
      by (rule packSentences_bound [OF p a]) simp_all
    then show ?thesis by (simp add: c)
  qed
  have long: "s \<in> set (chunkText t)"
    if m: "s \<in> set (splitSentences t)" and l: "CHUNK_SIZE < length s" for s
  proof -
    have "s \<in> set cs' \<or> cur' = s"
      by (rule packSentences_long_sentence [OF p m l])
    moreover have "s \<noteq> []" using l by auto
    ultimately show ?thesis by (auto simp add: c)
  qed
  from short long show ?thesis by blast
qed

theorem chunk_length_bound_witness:
  "CHUNK_SIZE < length (replicate 3000 CHR ''a'' @ ''.'' @ replicate 3000 CHR ''b'' @ ''.'') \<and>
   list_all (\<lambda>c. length c \<le> CHUNK_SIZE)
     (chunkText (replicate 3000 CHR ''a'' @ ''.'' @ replicate 3000 CHR ''b'' @ ''.'')) \<and>
   splitSentences (replicate 4001 CHR ''a'' @ ''.'' @ replicate 10 CHR ''b'' @ ''.'')
     = [replicate 4001 CHR ''a'' @ ''.'', replicate 10 CHR ''b'' @ ''.''] \<and>
   CHUNK_SIZE < length (replicate 4001 CHR ''a'' @ ''.'') \<and>
   replicate 4001 CHR ''a'' @ ''.''
     \<in> set (chunkText (replicate 4001 CHR ''a'' @ ''.'' @ replicate 10 CHR ''b'' @ ''.''))"
proof -
  have "matchSentences (replicate 3000 CHR ''a'' @ ''.'' @ replicate 3000 CHR ''b'' @ ''.'')
          = [replicate 3000 CHR ''a'' @ ''.'', replicate 3000 CHR ''b'' @ ''.'']"
    by (rule matchSentences_two) (simp_all add: isTerminator_def)
  then have "\<forall>s\<in>set (splitSentences (replicate 3000 CHR ''a'' @ ''.'' @ replicate 3000 CHR ''b'' @ ''.'')).
      length s \<le> CHUNK_SIZE"
    by (simp add: splitSentences_def CHUNK_SIZE_def)
  from chunk_length_bound [THEN conjunct1, THEN mp, OF this]
  have short: "list_all (\<lambda>c. length c \<le> CHUNK_SIZE)
     (chunkText (replicate 3000 CHR ''a'' @ ''.'' @ replicate 3000 CHR ''b'' @ ''.''))"
    by (simp add: list_all_iff)
  have "matchSentences (replicate 4001 CHR ''a'' @ ''.'' @ replicate 10 CHR ''b'' @ ''.'')
          = [replicate 4001 CHR ''a'' @ ''.'', replicate 10 CHR ''b'' @ ''.'']"
    by (rule matchSentences_two) (simp_all add: isTerminator_def)
  then have sp: "splitSentences (replicate 4001 CHR ''a'' @ ''.'' @ replicate 10 CHR ''b'' @ ''.'')
          = [replicate 4001 CHR ''a'' @ ''.'', replicate 10 CHR ''b'' @ ''.'']"
    by (simp add: splitSentences_def)
  then have m: "replicate 4001 CHR ''a'' @ ''.''
      \<in> set (splitSentences (replicate 4001 CHR ''a'' @ ''.'' @ replicate 10 CHR ''b'' @ ''.''))"
    by simp
  have l: "CHUNK_SIZE < length (replicate 4001 CHR ''a'' @ ''.'')"
    by (simp add: CHUNK_SIZE_def)
  have long: "replicate 4001 CHR ''a'' @ ''.''
     \<in> set (chunkText (replicate 4001 CHR ''a'' @ ''.'' @ replicate 10 CHR ''b'' @ ''.''))"
    by (rule chunk_length_bound [THEN conjunct2, rule_format, OF m l])
  have "CHUNK_SIZE < length (replicate 3000 CHR ''a'' @ ''.'' @ replicate 3000 CHR ''b'' @ ''.'')"
    by (simp add: CHUNK_SIZE_def)
  with short sp l long show ?thesis by (intro conjI)
qed

section \<open>Properties of the capability resolver\<close>

text \<open>
  For a handle with an \<open>availability\<close> method, the probe is the two attempts, the
  normalisation of the status they leave, and the resolution of the returned promise.
\<close>

lemma checkAvailability_function:
  assumes "truthy apiObject" "getProp apiObject ''availability'' = Returned (JFun fid fs)"
  shows "checkAvailability h apiObject args =
     asyncReturn h (catchError
       (let status = (if truthy args
                      then (case awaitCall h fid [args] of Returned v \<Rightarrow> v | Thrown e \<Rightarrow> JUndefined)
                      else JUndefined)
        in case (if status = JUndefined
                 then (case awaitCall h fid [] of
                         Returned v \<Rightarrow> Inr v
                       | Thrown e \<Rightarrow> if truthy args then Inl (JStr ''error'') else Inr status)
                 else Inr status) of
             Inl early \<Rightarrow> Returned early
           | Inr status \<Rightarrow> statusResult status))"
  unfolding statusResult_def [abs_def] using assms by (simp add: checkAvailability_def Let_def)

lemma checkAvailability_no_arg_path:
  assumes "truthy apiObject" "getProp apiObject ''availability'' = Returned (JFun fid fs)"
    and "\<not> truthy args \<or> (\<exists>e. awaitCall h fid [args] = Thrown e) \<or> awaitCall h fid [args] = Returned JUndefined"
    and "awaitCall h fid [] = Returned v"
  shows "checkAvailability h apiObject args = asyncReturn h (catchError (statusResult v))"
  using assms(3,4) by (auto simp add: checkAvailability_function [OF assms(1,2)] Let_def)

lemma checkAvailability_arg_path:
  assumes "truthy apiObject" "getProp apiObject ''availability'' = Returned (JFun fid fs)"
    and "truthy args" "awaitCall h fid [args] = Returned v" "v \<noteq> JUndefined"
  shows "checkAvailability h apiObject args = asyncReturn h (catchError (statusResult v))"
  using assms(3,4,5) by (simp add: checkAvailability_function [OF assms(1,2)] Let_def)

lemma checkAvailability_both_throw:
  assumes "truthy apiObject" "getProp apiObject ''availability'' = Returned (JFun fid fs)"
    and "\<not> truthy args \<or> (\<exists>e. awaitCall h fid [args] = Thrown e) \<or> awaitCall h fid [args] = Returned JUndefined"
    and "awaitCall h fid [] = Thrown e'"
  shows "checkAvailability h apiObject args = Returned (JStr ''error'')"
  using assms(3,4)
  by (auto simp add: checkAvailability_function [OF assms(1,2)] Let_def statusResult_def
        catchError_def asyncReturn_def thenOf_def)

lemma thenOf_JStr: "thenOf (JStr s) = None"
  by (simp add: thenOf_def)

lemma asyncReturn_JStr: "asyncReturn h (Returned (JStr s)) = Returned (JStr s)"
  by (simp add: asyncReturn_def thenOf_JStr)

lemma status_nothing:
  "v = JUndefined \<or> v = JNull \<Longrightarrow> asyncReturn h (catchError (statusResult v)) = Returned (JStr ''error'')"
  by (auto simp add: statusResult_def catchError_def asyncReturn_JStr)

lemma status_plain:
  assumes "typeof v \<noteq> ''object''" "v \<noteq> JUndefined" "thenOf v = None"
  shows "asyncReturn h (catchError (statusResult v)) = Returned v"
  using assms by (simp add: statusResult_def catchError_def asyncReturn_def)

lemma status_array:
  "asyncReturn h (catchError (statusResult (JArr xs))) = Returned (JStr ''available_object'')"
  by (simp add: statusResult_def catchError_def asyncReturn_JStr)

lemma status_field:
  assumes "map_of ofs ''available'' = Some a" "truthy a" "thenOf a = None"
  shows "asyncReturn h (catchError (statusResult (JObj ofs))) = Returned a"
  using assms by (simp add: statusResult_def catchError_def asyncReturn_def)

lemma status_no_field:
  assumes "map_of ofs ''available'' = None \<or> (\<exists>a. map_of ofs ''available'' = Some a \<and> \<not> truthy a)"
  shows "asyncReturn h (catchError (statusResult (JObj ofs))) = Returned (JStr ''available_object'')"
  using assms by (auto simp add: statusResult_def catchError_def asyncReturn_JStr)

text \<open>
  The un-awaited \<^verbatim>\<open>return status.available\<close>: when the field holds a thenable that rejects,
  the promise of \<open>checkAvailability\<close> rejects, although the whole body is inside \<open>try\<close>.
\<close>

lemma checkAvailability_thenable_rejects:
  "checkAvailability
     (constHost (Returned (JObj [(''available'', JObj [(''then'', JFun 7 [])])])))
     exampleHandle JUndefined
   = Thrown (newError ''rejected'')"
  by (simp add: checkAvailability_def constHost_def exampleHandle_def catchError_def
        asyncReturn_def thenOf_def)

subsection \<open>Claim C3: the two-phase fallback\<close>

text \<open>
  Claim C3 as stated (when the call with the arguments throws and the call without
  arguments returns a value, the result is that call's status and not \<open>'error'\<close>) fails for
  the values \<open>undefined\<close> and \<open>null\<close>: the code returns \<open>'error'\<close> for a status that is
  \<open>undefined\<close>, and reading \<open>available\<close> of \<open>null\<close> throws into the outer \<open>catch\<close>. A handle
  whose call with arguments throws and whose call without arguments returns \<open>null\<close> gives
  \<open>'error'\<close>.
\<close>

theorem checkAvailability_null_counterexample:
  "checkAvailability (noArgHost (Returned JNull)) exampleHandle exampleArgs = Returned (JStr ''error'')"
  by (simp add: checkAvailability_def noArgHost_def exampleHandle_def exampleArgs_def catchError_def
        asyncReturn_def thenOf_def newError_def)

text \<open>
  Claim C3, amended: for every handle whose availability call with the arguments throws,
  (1) when the call without arguments returns \<open>v\<close>, the result is the status read from
  \<open>v\<close>: \<open>'error'\<close> when \<open>v\<close> is \<open>undefined\<close> or \<open>null\<close>; \<open>v\<close> itself when \<open>v\<close> is not an object (and
  no thenable); \<open>'available_object'\<close> when \<open>v\<close> is an array; for an object, the value of its
  \<open>available\<close> field when that is truthy (and no thenable), and \<open>'available_object'\<close> when
  the field is absent or falsy; (2) when the call without arguments throws as well, the
  result is \<open>'error'\<close>.
\<close>

theorem checkAvailability_fallback:
  assumes "truthy apiObject" "getProp apiObject ''availability'' = Returned (JFun fid fs)"
    and "truthy args" "awaitCall h fid [args] = Thrown e"
  shows "(\<forall>v. awaitCall h fid [] = Returned v \<longrightarrow>
            (v = JUndefined \<or> v = JNull \<longrightarrow>
               checkAvailability h apiObject args = Returned (JStr ''error'')) \<and>
            (typeof v \<noteq> ''object'' \<and> v \<noteq> JUndefined \<and> thenOf v = None \<longrightarrow>
               checkAvailability h apiObject args = Returned v) \<and>
            (\<forall>xs. v = JArr xs \<longrightarrow>
               checkAvailability h apiObject args = Returned (JStr ''available_object'')) \<and>
            (\<forall>ofs a. v = JObj ofs \<and> map_of ofs ''available'' = Some a \<and> truthy a \<and> thenOf a = None \<longrightarrow>
               checkAvailability h apiObject args = Returned a) \<and>
            (\<forall>ofs. v = JObj ofs \<and>
                 (map_of ofs ''available'' = None \<or> (\<exists>a. map_of ofs ''available'' = Some a \<and> \<not> truthy a)) \<longrightarrow>
               checkAvailability h apiObject args = Returned (JStr ''available_object''))) \<and>
         (\<forall>e'. awaitCall h fid [] = Thrown e' \<longrightarrow>
            checkAvailability h apiObject args = Returned (JStr ''error''))"
proof (intro conjI allI impI)
  fix e'
  assume "awaitCall h fid [] = Thrown e'"
  with assms(4) show "checkAvailability h apiObject args = Returned (JStr ''error'')"
    by (intro checkAvailability_both_throw [OF assms(1,2)]) blast+
next
  fix v
  assume v: "awaitCall h fid [] = Returned v"
  have eq: "checkAvailability h apiObject args = asyncReturn h (catchError (statusResult v))"
    using assms(4) v by (intro checkAvailability_no_arg_path [OF assms(1,2)]) blast+
  {
    assume "v = JUndefined \<or> v = JNull"
    then show "checkAvailability h apiObject args = Returned (JStr ''error'')"
      unfolding eq by (rule status_nothing)
  next
    assume "typeof v \<noteq> ''object'' \<and> v \<noteq> JUndefined \<and> thenOf v = None"
    then show "checkAvailability h apiObject args = Returned v"
      unfolding eq by (intro status_plain) blast+
  next
    fix xs
    assume "v = JArr xs"
    then show "checkAvailability h apiObject args = Returned (JStr ''available_object'')"
      unfolding eq by (simp only: status_array)
  next
    fix ofs a
    assume "v = JObj ofs \<and> map_of ofs ''available'' = Some a \<and> truthy a \<and> thenOf a = None"
    then show "checkAvailability h apiObject args = Returned a"
      unfolding eq by (auto intro: status_field)
  next
    fix ofs
    assume "v = JObj ofs \<and>
      (map_of ofs ''available'' = None \<or> (\<exists>a. map_of ofs ''available'' = Some a \<and> \<not> truthy a))"
    then show "checkAvailability h apiObject args = Returned (JStr ''available_object'')"
      unfolding eq by (auto intro: status_no_field)
  }
qed

theorem checkAvailability_fallback_witness:
  "checkAvailability (noArgHost (Returned (JStr ''readily''))) exampleHandle exampleArgs
     = Returned (JStr ''readily'') \<and>
   checkAvailability (noArgHost (Returned (JObj [(''available'', JStr ''downloadable'')])))
       exampleHandle exampleArgs
     = Returned (JStr ''downloadable'') \<and>
   checkAvailability (noArgHost (Returned (JObj [(''state'', JStr ''ok'')]))) exampleHandle exampleArgs
     = Returned (JStr ''available_object'') \<and>
   checkAvailability (constHost (Thrown (newError ''NotSupportedError''))) exampleHandle exampleArgs
     = Returned (JStr ''error'')"
proof -
  have t: "truthy exampleHandle" "truthy exampleArgs"
    by (simp_all add: exampleHandle_def exampleArgs_def)
  have f: "getProp exampleHandle ''availability'' = Returned (JFun 1 [])"
    by (simp add: exampleHandle_def)
  have n: "awaitCall (noArgHost r) 1 [exampleArgs] = Thrown (newError ''TypeError'')"
    "awaitCall (noArgHost r) 1 [] = r" for r
    by (simp_all add: noArgHost_def)
  have c: "awaitCall (constHost r) 1 as = r" for r as
    by (simp add: constHost_def)
  note b = checkAvailability_fallback [where h = "constHost (Thrown (newError ''NotSupportedError''))",
      OF t(1) f t(2) c, THEN conjunct2, rule_format, OF c]
  have 1: "checkAvailability (noArgHost (Returned (JStr ''readily''))) exampleHandle exampleArgs
          = Returned (JStr ''readily'')"
    by (rule checkAvailability_fallback [where h = "noArgHost (Returned (JStr ''readily''))",
          OF t(1) f t(2) n(1), THEN conjunct1, rule_format, OF n(2),
          THEN conjunct2, THEN conjunct1, rule_format])
       (simp add: thenOf_def)
  have 2: "checkAvailability (noArgHost (Returned (JObj [(''available'', JStr ''downloadable'')])))
       exampleHandle exampleArgs = Returned (JStr ''downloadable'')"
    by (rule checkAvailability_fallback
          [where h = "noArgHost (Returned (JObj [(''available'', JStr ''downloadable'')]))",
          OF t(1) f t(2) n(1), THEN conjunct1, rule_format, OF n(2),
          THEN conjunct2, THEN conjunct2, THEN conjunct2, THEN conjunct1, rule_format,
          where ofs = "[(''available'', JStr ''downloadable'')]"])
       (simp add: thenOf_def)
  have 3: "checkAvailability (noArgHost (Returned (JObj [(''state'', JStr ''ok'')]))) exampleHandle exampleArgs
     = Returned (JStr ''available_object'')"
    by (rule checkAvailability_fallback
          [where h = "noArgHost (Returned (JObj [(''state'', JStr ''ok'')]))",
          OF t(1) f t(2) n(1), THEN conjunct1, rule_format, OF n(2),
          THEN conjunct2, THEN conjunct2, THEN conjunct2, THEN conjunct2, rule_format,
          where ofs = "[(''state'', JStr ''ok'')]"])
       simp
  from 1 2 3 b show ?thesis by (intro conjI)
qed

subsection \<open>Claim C5: the normalisation of the result\<close>

text \<open>
  Claim C5 as stated (a structured result with an \<open>available\<close> field gives that field's
  value, for every value of the field) fails where the field's value is falsy: the code
  tests \<^verbatim>\<open>if (status.available)\<close>, so for the result \<^verbatim>\<open>{available: false}\<close> the probe returns
  \<open>'available_object'\<close>, not \<open>false\<close>.
\<close>

theorem checkAvailability_falsy_available_counterexample:
  "checkAvailability (constHost (Returned (JObj [(''available'', JBool False)]))) exampleHandle JUndefined
     = Returned (JStr ''available_object'') \<and>
   JStr ''available_object'' \<noteq> JBool False"
  by (simp add: checkAvailability_def constHost_def exampleHandle_def catchError_def
        asyncReturn_def thenOf_def)

text \<open>
  Claim C5, amended: when the availability check yields a result \<open>v\<close> (a value other than
  \<open>undefined\<close>, from the call with the arguments or, failing that, from the call
  without), then: a \<open>v\<close> that is not an object and no thenable is returned unchanged, in
  particular every plain status token; an object with an \<open>available\<close> field whose value is
  truthy and no thenable gives that value; an object without the field, or with a falsy
  value in it, gives \<open>'available_object'\<close>, and so does an array; \<open>null\<close> gives \<open>'error'\<close>.
\<close>

theorem checkAvailability_result_shape:
  assumes "truthy apiObject" "getProp apiObject ''availability'' = Returned (JFun fid fs)"
    and "(truthy args \<and> awaitCall h fid [args] = Returned v) \<or>
         ((\<not> truthy args \<or> (\<exists>e. awaitCall h fid [args] = Thrown e) \<or>
           awaitCall h fid [args] = Returned JUndefined) \<and>
          awaitCall h fid [] = Returned v)"
    and "v \<noteq> JUndefined"
  shows "(typeof v \<noteq> ''object'' \<and> thenOf v = None \<longrightarrow>
            checkAvailability h apiObject args = Returned v) \<and>
         (\<forall>s. v = JStr s \<longrightarrow> checkAvailability h apiObject args = Returned (JStr s)) \<and>
         (\<forall>ofs a. v = JObj ofs \<and> map_of ofs ''available'' = Some a \<and> truthy a \<and> thenOf a = None \<longrightarrow>
            checkAvailability h apiObject args = Returned a) \<and>
         (\<forall>ofs. v = JObj ofs \<and>
              (map_of ofs ''available'' = None \<or> (\<exists>a. map_of ofs ''available'' = Some a \<and> \<not> truthy a)) \<longrightarrow>
            checkAvailability h apiObject args = Returned (JStr ''available_object'')) \<and>
         (\<forall>xs. v = JArr xs \<longrightarrow>
            checkAvailability h apiObject args = Returned (JStr ''available_object'')) \<and>
         (v = JNull \<longrightarrow> checkAvailability h apiObject args = Returned (JStr ''error''))"
proof -
  have eq: "checkAvailability h apiObject args = asyncReturn h (catchError (statusResult v))"
    using assms(3)
  proof
    assume "truthy args \<and> awaitCall h fid [args] = Returned v"
    with assms(4) show ?thesis by (intro checkAvailability_arg_path [OF assms(1,2)]) blast+
  next
    assume "(\<not> truthy args \<or> (\<exists>e. awaitCall h fid [args] = Thrown e) \<or>
           awaitCall h fid [args] = Returned JUndefined) \<and> awaitCall h fid [] = Returned v"
    then show ?thesis by (intro checkAvailability_no_arg_path [OF assms(1,2)]) blast+
  qed
  show ?thesis
  proof (intro conjI allI impI)
    assume "typeof v \<noteq> ''object'' \<and> thenOf v = None"
    with assms(4) show "checkAvailability h apiObject args = Returned v"
      unfolding eq by (intro status_plain) blast+
  next
    fix s
    assume "v = JStr s"
    then show "checkAvailability h apiObject args = Returned (JStr s)"
      unfolding eq by (simp add: status_plain thenOf_JStr)
  next
    fix ofs a
    assume "v = JObj ofs \<and> map_of ofs ''available'' = Some a \<and> truthy a \<and> thenOf a = None"
    then show "checkAvailability h apiObject args = Returned a"
      unfolding eq by (auto intro: status_field)
  next
    fix ofs
    assume "v = JObj ofs \<and>
      (map_of ofs ''available'' = None \<or> (\<exists>a. map_of ofs ''available'' = Some a \<and> \<not> truthy a))"
    then show "checkAvailability h apiObject args = Returned (JStr ''available_object'')"
      unfolding eq by (auto intro: status_no_field)
  next
    fix xs
    assume "v = JArr xs"
    then show "checkAvailability h apiObject args = Returned (JStr ''available_object'')"
      unfolding eq by (simp only: status_array)
  next
    assume "v = JNull"
    then show "checkAvailability h apiObject args = Returned (JStr ''error'')"
      unfolding eq by (intro status_nothing) blast
  qed
qed

theorem checkAvailability_result_shape_witness:
  "checkAvailability (constHost (Returned (JStr ''downloadable''))) exampleHandle exampleArgs
     = Returned (JStr ''downloadable'') \<and>
   checkAvailability (noArgHost (Returned (JBool True))) exampleHandle exampleArgs
     = Returned (JBool True) \<and>
   checkAvailability (noArgHost (Returned (JObj [(''available'', JStr ''readily'')]))) exampleHandle exampleArgs
     = Returned (JStr ''readily'') \<and>
   checkAvailability (constHost (Returned (JObj [(''state'', JStr ''ok'')]))) exampleHandle JUndefined
     = Returned (JStr ''available_object'') \<and>
   checkAvailability (constHost (Returned (JArr []))) exampleHandle JUndefined
     = Returned (JStr ''available_object'') \<and>
   checkAvailability (constHost (Returned JNull)) exampleHandle JUndefined
     = Returned (JStr ''error'')"
proof -
  have t: "truthy exampleHandle" "truthy exampleArgs" "\<not> truthy JUndefined"
    by (simp_all add: exampleHandle_def exampleArgs_def)
  have f: "getProp exampleHandle ''availability'' = Returned (JFun 1 [])"
    by (simp add: exampleHandle_def)
  have 1: "checkAvailability (constHost (Returned (JStr ''downloadable''))) exampleHandle exampleArgs
             = Returned (JStr ''downloadable'')"
    by (rule checkAvailability_result_shape [OF t(1) f, THEN conjunct2, THEN conjunct1, rule_format])
       (simp_all add: constHost_def t)
  have 2: "checkAvailability (noArgHost (Returned (JBool True))) exampleHandle exampleArgs
             = Returned (JBool True)"
    by (rule checkAvailability_result_shape [where v = "JBool True", OF t(1) f, THEN conjunct1, rule_format])
       (simp_all add: noArgHost_def t thenOf_def)
  have 3: "checkAvailability (noArgHost (Returned (JObj [(''available'', JStr ''readily'')])))
             exampleHandle exampleArgs = Returned (JStr ''readily'')"
    by (rule checkAvailability_result_shape
          [where v = "JObj [(''available'', JStr ''readily'')]", OF t(1) f,
            THEN conjunct2, THEN conjunct2, THEN conjunct1, rule_format,
            where ofs = "[(''available'', JStr ''readily'')]"])
       (simp_all add: noArgHost_def t thenOf_def)
  have 4: "checkAvailability (constHost (Returned (JObj [(''state'', JStr ''ok'')]))) exampleHandle JUndefined
             = Returned (JStr ''available_object'')"
    by (rule checkAvailability_result_shape
          [where v = "JObj [(''state'', JStr ''ok'')]", OF t(1) f,
            THEN conjunct2, THEN conjunct2, THEN conjunct2, THEN conjunct1, rule_format,
            where ofs = "[(''state'', JStr ''ok'')]"])
       (simp_all add: constHost_def)
  have 5: "checkAvailability (constHost (Returned (JArr []))) exampleHandle JUndefined
             = Returned (JStr ''available_object'')"
    by (rule checkAvailability_result_shape
          [where v = "JArr []", OF t(1) f,
            THEN conjunct2, THEN conjunct2, THEN conjunct2, THEN conjunct2, THEN conjunct1, rule_format])
       (simp_all add: constHost_def)
  have 6: "checkAvailability (constHost (Returned JNull)) exampleHandle JUndefined
             = Returned (JStr ''error'')"
    by (rule checkAvailability_result_shape
          [where v = JNull, OF t(1) f,
            THEN conjunct2, THEN conjunct2, THEN conjunct2, THEN conjunct2, THEN conjunct2, rule_format])
       (simp_all add: constHost_def)
  from 1 2 3 4 5 6 show ?thesis by (intro conjI)
qed

subsection \<open>Claim C6: the probe never throws\<close>

lemma status_shape:
  assumes "w \<noteq> JUndefined" "thenOf w = None"
    and "\<forall>ofs a. w = JObj ofs \<and> map_of ofs ''available'' = Some a \<longrightarrow> thenOf a = None"
  shows "\<exists>v. asyncReturn h (catchError (statusResult w)) = Returned v \<and>
         (v = JStr ''error'' \<or> v = JStr ''available_object'' \<or> v = w \<or>
          (\<exists>ofs. w = JObj ofs \<and> map_of ofs ''available'' = Some v))"
proof (cases w)
  case JUndefined
  with assms(1) show ?thesis by simp
next
  case JNull
  then show ?thesis by (simp add: status_nothing)
next
  case (JArr xs)
  then show ?thesis by (simp add: status_array)
next
  case (JObj ofs)
  show ?thesis
  proof (cases "map_of ofs ''available''")
    case None
    then show ?thesis unfolding JObj by (simp add: status_no_field)
  next
    case (Some a)
    show ?thesis
    proof (cases "truthy a")
      case True
      moreover from assms(3) JObj Some have "thenOf a = None" by blast
      ultimately have "asyncReturn h (catchError (statusResult (JObj ofs))) = Returned a"
        using Some by (intro status_field)
      with Some show ?thesis unfolding JObj by blast
    next
      case False
      with Some have "asyncReturn h (catchError (statusResult (JObj ofs))) = Returned (JStr ''available_object'')"
        by (intro status_no_field) blast
      then show ?thesis unfolding JObj by blast
    qed
  qed
qed (use assms(2) in \<open>simp_all add: status_plain\<close>)

lemma checkAvailability_probe:
  assumes "truthy apiObject" "getProp apiObject ''availability'' = Returned (JFun fid fs)"
  shows "checkAvailability h apiObject args = Returned (JStr ''error'') \<or>
         (\<exists>as w. (as = [args] \<or> as = []) \<and> awaitCall h fid as = Returned w \<and> w \<noteq> JUndefined \<and>
            checkAvailability h apiObject args = asyncReturn h (catchError (statusResult w)))"
proof (cases "truthy args \<and> (\<exists>w. awaitCall h fid [args] = Returned w \<and> w \<noteq> JUndefined)")
  case True
  then obtain w where w: "awaitCall h fid [args] = Returned w" "w \<noteq> JUndefined" and a: "truthy args"
    by blast
  from checkAvailability_arg_path [OF assms a w] w show ?thesis by blast
next
  case False
  then have n: "\<not> truthy args \<or> (\<exists>e. awaitCall h fid [args] = Thrown e) \<or>
      awaitCall h fid [args] = Returned JUndefined"
    by (cases "awaitCall h fid [args]") auto
  show ?thesis
  proof (cases "awaitCall h fid []")
    case (Thrown e')
    from checkAvailability_both_throw [OF assms n Thrown] show ?thesis by blast
  next
    case (Returned w)
    note eq = checkAvailability_no_arg_path [OF assms n Returned]
    show ?thesis
    proof (cases "w = JUndefined")
      case True
      then show ?thesis unfolding eq by (simp add: status_nothing)
    next
      case False
      with Returned eq show ?thesis by blast
    qed
  qed
qed

text \<open>
  Claim C6, amended: for every handle, every arguments value and every host whose
  availability calls answer with no thenable, neither as the answer nor in the answer's
  \<open>available\<close> field, the probe returns and does not throw. Its result is one of the four
  statuses the code itself produces (\<open>'unavailable'\<close>, \<open>'error'\<close>, \<open>'available_object'\<close>,
  \<open>'available_unknown_methods'\<close>), or a value the host supplied: what one of the two
  availability calls returned, or the \<open>available\<close> field of the object it returned.
\<close>

theorem checkAvailability_never_throws:
  assumes "\<forall>fid fs as w. getProp apiObject ''availability'' = Returned (JFun fid fs) \<and>
              (as = [args] \<or> as = []) \<and> awaitCall h fid as = Returned w \<longrightarrow>
            thenOf w = None \<and>
            (\<forall>ofs a. w = JObj ofs \<and> map_of ofs ''available'' = Some a \<longrightarrow> thenOf a = None)"
  shows "\<exists>v. checkAvailability h apiObject args = Returned v \<and>
     (v \<in> JStr ` {''unavailable'', ''error'', ''available_object'', ''available_unknown_methods''} \<or>
      (\<exists>fid fs as w. getProp apiObject ''availability'' = Returned (JFun fid fs) \<and>
         (as = [args] \<or> as = []) \<and> awaitCall h fid as = Returned w \<and>
         (v = w \<or> (\<exists>ofs. w = JObj ofs \<and> map_of ofs ''available'' = Some v))))"
proof (cases "truthy apiObject")
  case False
  then show ?thesis by (simp add: checkAvailability_def asyncReturn_JStr)
next
  case True
  then obtain av where av: "getProp apiObject ''availability'' = Returned av"
    by (cases apiObject) simp_all
  show ?thesis
  proof (cases "typeof av = ''function''")
    case False
    with True av show ?thesis by (simp add: checkAvailability_def catchError_def asyncReturn_JStr)
  next
    case fn: True
    then obtain fid fs where f: "av = JFun fid fs" by (cases av) simp_all
    from checkAvailability_probe [OF True av [unfolded f], of h args]
    show ?thesis
    proof
      assume "checkAvailability h apiObject args = Returned (JStr ''error'')"
      then show ?thesis by simp
    next
      assume "\<exists>as w. (as = [args] \<or> as = []) \<and> awaitCall h fid as = Returned w \<and> w \<noteq> JUndefined \<and>
            checkAvailability h apiObject args = asyncReturn h (catchError (statusResult w))"
      then obtain as w where as: "as = [args] \<or> as = []"
        and w: "awaitCall h fid as = Returned w" "w \<noteq> JUndefined"
        and r: "checkAvailability h apiObject args = asyncReturn h (catchError (statusResult w))"
        by blast
      from assms av f as w(1)
      have p: "thenOf w = None"
        "\<forall>ofs a. w = JObj ofs \<and> map_of ofs ''available'' = Some a \<longrightarrow> thenOf a = None"
        by blast+
      from status_shape [OF w(2) p, of h] obtain v
        where v: "checkAvailability h apiObject args = Returned v"
        and s: "v = JStr ''error'' \<or> v = JStr ''available_object'' \<or> v = w \<or>
          (\<exists>ofs. w = JObj ofs \<and> map_of ofs ''available'' = Some v)"
        unfolding r by blast
      from s consider (synth) "v = JStr ''error'' \<or> v = JStr ''available_object''"
        | (host) "v = w \<or> (\<exists>ofs. w = JObj ofs \<and> map_of ofs ''available'' = Some v)"
        by blast
      then show ?thesis
      proof cases
        case synth
        then have "v \<in> JStr ` {''unavailable'', ''error'', ''available_object'', ''available_unknown_methods''}"
          by (elim disjE) simp_all
        with v show ?thesis by (intro exI [of _ v] conjI disjI1)
      next
        case host
        have "\<exists>fid fs as w. getProp apiObject ''availability'' = Returned (JFun fid fs) \<and>
           (as = [args] \<or> as = []) \<and> awaitCall h fid as = Returned w \<and>
           (v = w \<or> (\<exists>ofs. w = JObj ofs \<and> map_of ofs ''available'' = Some v))"
          using av f as w(1) host by (intro exI [of _ fid] exI [of _ fs] exI [of _ as] exI [of _ w]) simp
        with v show ?thesis by (intro exI [of _ v] conjI disjI2)
      qed
    qed
  qed
qed

theorem checkAvailability_never_throws_witness:
  "\<exists>v. checkAvailability (constHost (Returned (JObj [(''available'', JStr ''readily'')])))
          exampleHandle exampleArgs = Returned v \<and>
     (v \<in> JStr ` {''unavailable'', ''error'', ''available_object'', ''available_unknown_methods''} \<or>
      v = JObj [(''available'', JStr ''readily'')] \<or> v = JStr ''readily'')"
proof -
  let ?answer = "JObj [(''available'', JStr ''readily'')]"
  have c: "awaitCall (constHost (Returned ?answer)) fid as = Returned ?answer" for fid as
    by (simp add: constHost_def)
  have plain: "thenOf ?answer = None \<and>
      (\<forall>ofs a. ?answer = JObj ofs \<and> map_of ofs ''available'' = Some a \<longrightarrow> thenOf a = None)"
    by (auto simp add: thenOf_def)
  have "\<forall>fid fs as w. getProp exampleHandle ''availability'' = Returned (JFun fid fs) \<and>
              (as = [exampleArgs] \<or> as = []) \<and>
              awaitCall (constHost (Returned ?answer)) fid as = Returned w \<longrightarrow>
            thenOf w = None \<and>
            (\<forall>ofs a. w = JObj ofs \<and> map_of ofs ''available'' = Some a \<longrightarrow> thenOf a = None)"
    unfolding c using plain by simp
  from checkAvailability_never_throws [OF this]
  obtain v where vd: "checkAvailability (constHost (Returned ?answer)) exampleHandle exampleArgs = Returned v \<and>
     (v \<in> JStr ` {''unavailable'', ''error'', ''available_object'', ''available_unknown_methods''} \<or>
      (\<exists>fid fs as w. getProp exampleHandle ''availability'' = Returned (JFun fid fs) \<and>
         (as = [exampleArgs] \<or> as = []) \<and>
         awaitCall (constHost (Returned ?answer)) fid as = Returned w \<and>
         (v = w \<or> (\<exists>ofs. w = JObj ofs \<and> map_of ofs ''available'' = Some v))))"
    by (rule exE)
  then have v: "checkAvailability (constHost (Returned ?answer)) exampleHandle exampleArgs = Returned v"
    and d: "v \<in> JStr ` {''unavailable'', ''error'', ''available_object'', ''available_unknown_methods''} \<or>
      (\<exists>fid fs as w. getProp exampleHandle ''availability'' = Returned (JFun fid fs) \<and>
         (as = [exampleArgs] \<or> as = []) \<and>
         awaitCall (constHost (Returned ?answer)) fid as = Returned w \<and>
         (v = w \<or> (\<exists>ofs. w = JObj ofs \<and> map_of ofs ''available'' = Some v)))"
    by (rule conjunct1, rule conjunct2)
  from d have "v \<in> JStr ` {''unavailable'', ''error'', ''available_object'', ''available_unknown_methods''} \<or>
      v = ?answer \<or> v = JStr ''readily''"
  proof
    assume "v \<in> JStr ` {''unavailable'', ''error'', ''available_object'', ''available_unknown_methods''}"
    then show ?thesis by (rule disjI1)
  next
    assume "\<exists>fid fs as w. getProp exampleHandle ''availability'' = Returned (JFun fid fs) \<and>
         (as = [exampleArgs] \<or> as = []) \<and>
         awaitCall (constHost (Returned ?answer)) fid as = Returned w \<and>
         (v = w \<or> (\<exists>ofs. w = JObj ofs \<and> map_of ofs ''available'' = Some v))"
    then obtain fid fs as w where "awaitCall (constHost (Returned ?answer)) fid as = Returned w"
      and e: "v = w \<or> (\<exists>ofs. w = JObj ofs \<and> map_of ofs ''available'' = Some v)"
      by (elim exE conjE)
    then have w: "Returned ?answer = Returned w"
      unfolding c by simp
    from w have w': "w = ?answer" by simp
    from e have "v = ?answer \<or> v = JStr ''readily''"
      unfolding w' by auto
    then show ?thesis by (rule disjI2)
  qed
  with v show ?thesis by (intro exI [of _ v] conjI)
qed

text \<open>
  Claim C6 as stated (the result is always one of the nine enumerated statuses) fails: the
  code passes the host's value on unchecked. A host whose availability call returns
  \<open>'no'\<close> makes the probe return \<open>'no'\<close>.
\<close>

theorem checkAvailability_unlisted_status_counterexample:
  "checkAvailability (constHost (Returned (JStr ''no''))) exampleHandle JUndefined = Returned (JStr ''no'') \<and>
   ''no'' \<notin> {''unavailable'', ''unavailable-no-handle'', ''error'', ''downloadable'', ''after-download'',
      ''readily'', ''available'', ''available_object'', ''available_unknown_methods''}"
  by (simp add: checkAvailability_def constHost_def exampleHandle_def catchError_def
        asyncReturn_def thenOf_def)

subsection \<open>Claim C10: the three copies of the resolver\<close>

text \<open>
  Claim C10: \<open>getApiObject\<close> and \<open>checkAvailability\<close> as written in popup.js, in part_000
  and in part_001 are the same functions: for every descriptor, global object, host,
  handle and arguments the copies return the same result.
\<close>

theorem resolver_copies_equal:
  "getApiObject_part000 = getApiObject \<and> getApiObject_part001 = getApiObject \<and>
   checkAvailability_part000 = checkAvailability \<and> checkAvailability_part001 = checkAvailability"
  by (intro conjI ext)
     (simp_all only: getApiObject_def getApiObject_part000_def getApiObject_part001_def
        checkAvailability_def checkAvailability_part000_def checkAvailability_part001_def)

section \<open>Properties of the download progress\<close>

text \<open>
  The percentage is computed in double arithmetic: for \<open>{loaded: 29, total: 200}\<close> the
  quotient is the double next to \<open>0.145\<close>, the product is \<open>14.499999999999998\<close>, and the
  button shows 14.
\<close>

lemma percentOf_rounds:
  "percentOf \<lparr>loaded = Fin 29, total = Fin 200\<rparr> = Fin (8162774324609023 / 562949953421312) \<and>
   buttonPercent (onDownloadProgress \<lparr>loaded = Fin 29, total = Fin 200\<rparr>) = Fin 14"
  by code_simp

text \<open>A total of zero gives no percentage: the handler shows \<open>NaN\<close> or an infinity.\<close>

lemma percentOf_zero_total:
  "isZero (total e) \<Longrightarrow> percentOf e = NaN \<or> percentOf e = PosInf \<or> percentOf e = NegInf"
  by (cases "total e"; cases "loaded e") (auto simp add: percentOf_def jsDivide_def)

subsection \<open>Rounding to a double is monotone\<close>





























subsection \<open>Claim C9: the reported percentages\<close>




section \<open>Properties of the response parsing\<close>

subsection \<open>Trimming\<close>

lemma trim_sandwich:
  assumes "list_all isJsWhitespace ws1" "list_all isJsWhitespace ws2"
    and "core = [] \<or> (\<not> isJsWhitespace (hd core) \<and> \<not> isJsWhitespace (last core))"
  shows "trim (ws1 @ core @ ws2) = core"
proof (cases "core = []")
  case True
  from assms(1,2) have "\<forall>x\<in>set (ws1 @ ws2). isJsWhitespace x"
    by (auto simp add: list_all_iff)
  then have d: "dropWhile isJsWhitespace (ws1 @ ws2) = []" by (simp only: dropWhile_eq_Nil_conv)
  have "trim (ws1 @ [] @ ws2) = []" unfolding trim_def append_Nil d by simp
  with True show ?thesis by simp
next
  case False
  with assms(3) have h: "\<not> isJsWhitespace (hd core)" and l: "\<not> isJsWhitespace (last core)"
    by simp_all
  from assms(1) have w1: "\<forall>x\<in>set ws1. isJsWhitespace x" by (simp add: list_all_iff)
  from assms(2) have w2: "\<forall>x\<in>set (rev ws2). isJsWhitespace x" by (simp add: list_all_iff)
  have "dropWhile isJsWhitespace (ws1 @ core @ ws2) = dropWhile isJsWhitespace (core @ ws2)"
    using w1 by simp
  also have "\<dots> = core @ ws2"
    using False h by (cases core) simp_all
  finally have 1: "dropWhile isJsWhitespace (ws1 @ core @ ws2) = core @ ws2" .
  have "dropWhile isJsWhitespace (rev ws2 @ rev core) = dropWhile isJsWhitespace (rev core)"
    by (rule dropWhile_append2) (use w2 in blast)
  also have "\<dots> = rev core"
    using False l by (cases "rev core") (simp_all add: hd_rev [symmetric])
  finally have 2: "dropWhile isJsWhitespace (rev (core @ ws2)) = rev core" by simp
  show ?thesis unfolding trim_def 1 2 by simp
qed

text \<open>Every string is white space, what \<open>trim\<close> leaves of it, and white space.\<close>

lemma trim_decomposition:
  "\<exists>ws1 ws2. s = ws1 @ trim s @ ws2 \<and> list_all isJsWhitespace ws1 \<and> list_all isJsWhitespace ws2 \<and>
     (trim s = [] \<or> (\<not> isJsWhitespace (hd (trim s)) \<and> \<not> isJsWhitespace (last (trim s))))"
proof -
  define ws1 where "ws1 = takeWhile isJsWhitespace s"
  define rest where "rest = dropWhile isJsWhitespace s"
  define trailing where "trailing = takeWhile isJsWhitespace (rev rest)"
  define mid where "mid = dropWhile isJsWhitespace (rev rest)"
  have s: "s = ws1 @ rest" unfolding ws1_def rest_def by simp
  have "rev rest = trailing @ mid" unfolding trailing_def mid_def by simp
  then have "rev (rev rest) = rev (trailing @ mid)" by (rule arg_cong)
  then have r: "rest = rev mid @ rev trailing" by simp
  have t: "trim s = rev mid" unfolding trim_def mid_def rest_def ..
  have w1: "list_all isJsWhitespace ws1"
    unfolding ws1_def list_all_iff by (auto dest: set_takeWhileD)
  have w2: "list_all isJsWhitespace (rev trailing)"
    unfolding trailing_def list_all_iff by (auto dest: set_takeWhileD)
  have e: "\<not> isJsWhitespace (hd (rev mid)) \<and> \<not> isJsWhitespace (last (rev mid))" if n: "rev mid \<noteq> []"
  proof
    from n have m: "mid \<noteq> []" by simp
    then have "\<not> isJsWhitespace (hd mid)" unfolding mid_def by (rule hd_dropWhile)
    with m show "\<not> isJsWhitespace (last (rev mid))" by (simp add: last_rev)
    from n r have "rest \<noteq> []" by simp
    then have "\<not> isJsWhitespace (hd rest)" unfolding rest_def by (rule hd_dropWhile)
    with n r show "\<not> isJsWhitespace (hd (rev mid))" by (simp add: hd_append)
  qed
  from s r have "s = ws1 @ rev mid @ rev trailing" by simp
  with w1 w2 e show ?thesis unfolding t by blast
qed

subsection \<open>The two replacements\<close>

lemma startsWith_iff: "startsWith s p \<longleftrightarrow> (\<exists>x. s = p @ x)"
proof
  assume "startsWith s p"
  then have "take (length p) s = p" unfolding startsWith_def .
  then have "s = p @ drop (length p) s" by (metis append_take_drop_id)
  then show "\<exists>x. s = p @ x" ..
next
  assume "\<exists>x. s = p @ x"
  then show "startsWith s p" by (auto simp add: startsWith_def)
qed

lemma endsWith_iff: "endsWith s p \<longleftrightarrow> (\<exists>y. s = y @ p)"
proof
  assume "endsWith s p"
  then have l: "length p \<le> length s" and d: "drop (length s - length p) s = p"
    unfolding endsWith_def by simp_all
  have "s = take (length s - length p) s @ drop (length s - length p) s" by simp
  with d have "s = take (length s - length p) s @ p" by simp
  then show "\<exists>y. s = y @ p" ..
next
  assume "\<exists>y. s = y @ p"
  then show "endsWith s p" by (auto simp add: endsWith_def)
qed

lemma startsWith_append: "startsWith (p @ r) p"
  by (simp add: startsWith_def)

lemma stripTrailingFence_append: "stripTrailingFence (x @ fence) = x"
  by (simp add: stripTrailingFence_def endsWith_def fence_def)

lemma stripTrailingFence_none: "\<not> (\<exists>y. x = y @ fence) \<Longrightarrow> stripTrailingFence x = x"
  by (simp add: stripTrailingFence_def endsWith_iff)

lemma stripLeadingFence_json: "stripLeadingFence (fence @ ''json'' @ x) = x"
  by (simp add: stripLeadingFence_def startsWith_def fence_def)

lemma stripLeadingFence_plain:
  assumes "\<not> (\<exists>z. x = ''json'' @ z)"
  shows "stripLeadingFence (fence @ x) = x"
proof -
  from assms have "\<not> startsWith x ''json''" by (simp only: startsWith_iff not_False_eq_True)
  moreover have "drop 3 (fence @ x) = x" by (simp add: fence_def)
  ultimately show ?thesis by (simp add: stripLeadingFence_def startsWith_append Let_def)
qed

lemma cleanResponse_trimmed:
  assumes "list_all isJsWhitespace ws1" "list_all isJsWhitespace ws2"
    and "core = [] \<or> (\<not> isJsWhitespace (hd core) \<and> \<not> isJsWhitespace (last core))"
  shows "cleanResponse (ws1 @ core @ ws2)
     = (if startsWith core fence then stripTrailingFence (stripLeadingFence core) else core)"
  by (simp add: cleanResponse_def trim_sandwich [OF assms])

lemma cleanResponse_plain_fence:
  assumes "\<not> startsWith body ''json''"
  shows "cleanResponse (fence @ body @ fence) = body"
proof -
  have n: "\<not> (\<exists>z. body @ fence = ''json'' @ z)"
  proof
    assume "\<exists>z. body @ fence = ''json'' @ z"
    then have "startsWith (body @ fence) ''json''" by (simp only: startsWith_iff)
    then have eq: "take (length ''json'') (body @ fence) = ''json''"
      unfolding startsWith_def .
    show False
    proof (cases "length ''json'' \<le> length body")
      case True
      with eq assms show False by (simp add: startsWith_def)
    next
      case False
      then obtain k where "length ''json'' - length body = Suc k"
        by (cases "length ''json'' - length body") auto
      then have "CHR 0x60 \<in> set (take (length ''json'' - length body) fence)"
        by (simp add: fence_def)
      then have "CHR 0x60 \<in> set (take (length ''json'') (body @ fence))"
        by simp
      then show False unfolding eq by simp
    qed
  qed
  have c: "fence @ body @ fence = [] \<or>
      (\<not> isJsWhitespace (hd (fence @ body @ fence)) \<and> \<not> isJsWhitespace (last (fence @ body @ fence)))"
    by (simp add: fence_def isJsWhitespace_def)
  have "cleanResponse ([] @ (fence @ body @ fence) @ [])
      = (if startsWith (fence @ body @ fence) fence
         then stripTrailingFence (stripLeadingFence (fence @ body @ fence)) else fence @ body @ fence)"
    by (rule cleanResponse_trimmed [OF _ _ c]) simp_all
  then show ?thesis
    by (simp add: startsWith_append stripLeadingFence_plain [OF n] stripTrailingFence_append)
qed

subsection \<open>Claim C8: fences around the response\<close>

text \<open>
  Claim C8 as stated (a leading fence is stripped together with any language token) fails:
  the pattern is \<^verbatim>\<open>/^```(json)?/\<close>, so only the token \<open>json\<close> goes with the fence. Of a
  response fenced with the tag \<open>javascript\<close> the tag stays, and the parse fails.
\<close>

theorem cleanResponse_other_language_counterexample:
  "cleanResponse (fence @ (''javascript'' @ [CHR 0x0A] @ ''{}'' @ [CHR 0x0A]) @ fence)
     = ''javascript'' @ [CHR 0x0A] @ ''{}'' @ [CHR 0x0A] \<and>
   parseResponse (fence @ (''javascript'' @ [CHR 0x0A] @ ''{}'' @ [CHR 0x0A]) @ fence)
     = Thrown (newError ''Failed to parse model output.'')"
proof -
  have c: "cleanResponse (fence @ (''javascript'' @ [CHR 0x0A] @ ''{}'' @ [CHR 0x0A]) @ fence)
     = ''javascript'' @ [CHR 0x0A] @ ''{}'' @ [CHR 0x0A]"
    by (rule cleanResponse_plain_fence) (simp add: startsWith_def)
  have "JSON_parse (''javascript'' @ [CHR 0x0A] @ ''{}'' @ [CHR 0x0A]) = None"
    by code_simp
  with c show ?thesis by (simp add: parseResponse_def)
qed

text \<open>
  Claim C8, amended: the response is trimmed: it is white space, a core that neither
  begins nor ends with white space, and white space, and the core is what is looked at. A
  core that does not start with a triple-backtick fence is handed to the parser as it is.
  Of a core that starts with a fence, that fence is stripped, together with the token
  \<open>json\<close> when it follows at once (no other language token is stripped); from what
  follows, a fence at the very end is stripped when there is one, and nothing when there
  is none. What is left is parsed. In particular the fenced example parses to the object
  with \<open>nouns\<close> \<open>["cat"]\<close>, \<open>verbs\<close> \<open>[]\<close> and \<open>adjectives\<close> \<open>["big"]\<close>.
\<close>

theorem parseResponse_strips_json_fence:
  assumes "list_all isJsWhitespace ws1" "list_all isJsWhitespace ws2"
    and "core = [] \<or> (\<not> isJsWhitespace (hd core) \<and> \<not> isJsWhitespace (last core))"
  shows "(\<not> (\<exists>x. core = fence @ x) \<longrightarrow> cleanResponse (ws1 @ core @ ws2) = core) \<and>
         (\<forall>tag x. core = fence @ tag @ x \<and>
              (tag = ''json'' \<or> (tag = [] \<and> \<not> (\<exists>z. x = ''json'' @ z))) \<longrightarrow>
            (\<forall>y. x = y @ fence \<longrightarrow> cleanResponse (ws1 @ core @ ws2) = y) \<and>
            (\<not> (\<exists>y. x = y @ fence) \<longrightarrow> cleanResponse (ws1 @ core @ ws2) = x)) \<and>
         parseResponse exampleResponse
           = Returned (JObj [(''nouns'', JArr [JStr ''cat'']), (''verbs'', JArr []),
                             (''adjectives'', JArr [JStr ''big''])])"
proof (intro conjI allI impI)
  note c = cleanResponse_trimmed [OF assms]
  {
    assume "\<not> (\<exists>x. core = fence @ x)"
    then have "\<not> startsWith core fence" by (simp only: startsWith_iff not_False_eq_True)
    then show "cleanResponse (ws1 @ core @ ws2) = core" by (simp add: c)
  }
  {
    fix tag x
    assume a: "core = fence @ tag @ x \<and> (tag = ''json'' \<or> (tag = [] \<and> \<not> (\<exists>z. x = ''json'' @ z)))"
    then have s: "startsWith core fence" by (simp add: startsWith_append)
    from a have "core = fence @ ''json'' @ x \<or> (core = fence @ x \<and> \<not> (\<exists>z. x = ''json'' @ z))"
      by auto
    then have "stripLeadingFence core = x"
    proof
      assume "core = fence @ ''json'' @ x"
      then show ?thesis by (simp only: stripLeadingFence_json)
    next
      assume "core = fence @ x \<and> \<not> (\<exists>z. x = ''json'' @ z)"
      then have c: "core = fence @ x" and n: "\<not> (\<exists>z. x = ''json'' @ z)" by simp_all
      show ?thesis unfolding c by (rule stripLeadingFence_plain [OF n])
    qed
    with s have e: "cleanResponse (ws1 @ core @ ws2) = stripTrailingFence x" by (simp add: c)
    {
      fix y
      assume "x = y @ fence"
      then show "cleanResponse (ws1 @ core @ ws2) = y" by (simp add: e stripTrailingFence_append)
    }
    {
      assume n: "\<not> (\<exists>y. x = y @ fence)"
      show "cleanResponse (ws1 @ core @ ws2) = x" unfolding e by (rule stripTrailingFence_none [OF n])
    }
  }
  have "cleanResponse exampleResponse
          = [CHR 0x0A] @
            ''{'' @ quoted ''nouns'' @ '':['' @ quoted ''cat'' @ ''],'' @ quoted ''verbs'' @ '':[],'' @
            quoted ''adjectives'' @ '':['' @ quoted ''big'' @ '']}'' @ [CHR 0x0A]"
    by code_simp
  moreover have "JSON_parse ([CHR 0x0A] @
     ''{'' @ quoted ''nouns'' @ '':['' @ quoted ''cat'' @ ''],'' @ quoted ''verbs'' @ '':[],'' @
     quoted ''adjectives'' @ '':['' @ quoted ''big'' @ '']}'' @ [CHR 0x0A])
   = Some (JObj [(''nouns'', JArr [JStr ''cat'']), (''verbs'', JArr []), (''adjectives'', JArr [JStr ''big''])])"
    by code_simp
  ultimately show "parseResponse exampleResponse
     = Returned (JObj [(''nouns'', JArr [JStr ''cat'']), (''verbs'', JArr []),
                       (''adjectives'', JArr [JStr ''big''])])"
    by (simp add: parseResponse_def)
qed

theorem parseResponse_strips_json_fence_witness:
  "cleanResponse (''  '' @ ''{}'' @ ''  '') = ''{}'' \<and>
   cleanResponse ('' '' @ (fence @ ''json'' @ ([CHR 0x0A] @ ''[1]'' @ [CHR 0x0A]) @ fence) @ [CHR 0x0A])
     = [CHR 0x0A] @ ''[1]'' @ [CHR 0x0A] \<and>
   cleanResponse ([] @ (fence @ [] @ ([CHR 0x0A] @ ''[1]'')) @ [CHR 0x0A])
     = [CHR 0x0A] @ ''[1]''"
proof -
  have w: "list_all isJsWhitespace ''  ''" "list_all isJsWhitespace '' ''" "list_all isJsWhitespace []"
    "list_all isJsWhitespace [CHR 0x0A]"
    by (simp_all add: isJsWhitespace_def)
  have c1: "''{}'' = [] \<or> (\<not> isJsWhitespace (hd ''{}'') \<and> \<not> isJsWhitespace (last ''{}''))"
    by (simp add: isJsWhitespace_def)
  have n1: "\<not> (\<exists>x. ''{}'' = fence @ x)"
    by (simp add: fence_def)
  have 1: "cleanResponse (''  '' @ ''{}'' @ ''  '') = ''{}''"
    by (rule parseResponse_strips_json_fence [OF w(1) w(1) c1, THEN conjunct1, rule_format, OF n1])
  let ?x2 = "([CHR 0x0A] @ ''[1]'' @ [CHR 0x0A]) @ fence"
  have c2: "fence @ ''json'' @ ?x2 = [] \<or>
      (\<not> isJsWhitespace (hd (fence @ ''json'' @ ?x2)) \<and> \<not> isJsWhitespace (last (fence @ ''json'' @ ?x2)))"
    by (simp add: fence_def isJsWhitespace_def)
  have a2: "fence @ ''json'' @ ?x2 = fence @ ''json'' @ ?x2 \<and>
      (''json'' = ''json'' \<or> (''json'' = [] \<and> \<not> (\<exists>z. ?x2 = ''json'' @ z)))"
    by simp
  have 2: "cleanResponse ('' '' @ (fence @ ''json'' @ ?x2) @ [CHR 0x0A]) = [CHR 0x0A] @ ''[1]'' @ [CHR 0x0A]"
    by (rule parseResponse_strips_json_fence [OF w(2) w(4) c2, THEN conjunct2, THEN conjunct1,
          rule_format, OF a2, THEN conjunct1, rule_format]) (rule refl)
  let ?x3 = "[CHR 0x0A] @ ''[1]''"
  have c3: "fence @ [] @ ?x3 = [] \<or>
      (\<not> isJsWhitespace (hd (fence @ [] @ ?x3)) \<and> \<not> isJsWhitespace (last (fence @ [] @ ?x3)))"
    by (simp add: fence_def isJsWhitespace_def)
  have a3: "fence @ [] @ ?x3 = fence @ [] @ ?x3 \<and>
      (([] :: string) = ''json'' \<or> (([] :: string) = [] \<and> \<not> (\<exists>z. ?x3 = ''json'' @ z)))"
    by simp
  have n3: "\<not> (\<exists>y. ?x3 = y @ fence)"
    by (simp add: fence_def append_eq_Cons_conv)
  have 3: "cleanResponse ([] @ (fence @ [] @ ?x3) @ [CHR 0x0A]) = ?x3"
    by (rule parseResponse_strips_json_fence [OF w(3) w(4) c3, THEN conjunct2, THEN conjunct1,
          rule_format, OF a3, THEN conjunct2, rule_format, OF n3])
  from 1 2 3 show ?thesis by (intro conjI) simp_all
qed

section \<open>Properties of the replace phase\<close>

text \<open>Escaping undoes itself: the pattern built from an escaped word stands for the word.\<close>

lemma isRegexSpecial_backslash: "isRegexSpecial backslash"
  by (simp add: isRegexSpecial_def)

lemma literalPattern_escaped:
  "isRegexSpecial c \<Longrightarrow>
   literalPattern (backslash # c # r) = (case literalPattern r of None \<Rightarrow> None | Some l \<Rightarrow> Some (c # l))"
  by simp

lemma literalPattern_plain:
  assumes "\<not> isRegexSpecial c"
  shows "literalPattern (c # r) = (case literalPattern r of None \<Rightarrow> None | Some l \<Rightarrow> Some (c # l))"
proof -
  have "c \<noteq> backslash" using assms isRegexSpecial_backslash by auto
  with assms show ?thesis by (cases r) simp_all
qed

lemma escapeRegExp_Cons:
  "escapeRegExp (c # w) = (if isRegexSpecial c then backslash # c # escapeRegExp w else c # escapeRegExp w)"
  by (simp add: escapeRegExp_def)

lemma literalPattern_escapeRegExp: "literalPattern (escapeRegExp w) = Some w"
proof (induction w)
  case Nil
  then show ?case by (simp add: escapeRegExp_def)
next
  case (Cons c w)
  show ?case
  proof (cases "isRegexSpecial c")
    case True
    then show ?thesis
      by (simp add: escapeRegExp_Cons literalPattern_escaped [OF True] Cons.IH del: literalPattern.simps)
  next
    case False
    then show ?thesis
      by (simp add: escapeRegExp_Cons literalPattern_plain [OF False] Cons.IH del: literalPattern.simps)
  qed
qed

text \<open>So building the regular expression never throws, whatever the words are.\<close>

lemma replaceEntries_returns: "\<exists>t' m. replaceEntries es t modified = Returned (t', m)"
proof (induction es arbitrary: t modified)
  case Nil
  then show ?case by simp
next
  case (Cons e es)
  obtain original replacement where e: "e = (original, replacement)" by (cases e)
  show ?case
    unfolding e using Cons.IH by (simp add: literalPattern_escapeRegExp)
qed

text \<open>The example of the specification, and a node no word occurs in.\<close>

lemma rewriteNode_cat_dog:
  "rewriteNode [(''cat'', ''dog'')] ''The Cat sat.'' = Returned (Some ''The dog sat.'')"
  by code_simp

lemma rewriteNode_no_match:
  "rewriteNode [(''cat'', ''dog'')] ''Nothing here.'' = Returned None"
  by code_simp

text \<open>A replacement without a dollar sign stands for itself.\<close>

lemma getSubstitution_plain:
  "CHR ''$'' \<notin> set replacement \<Longrightarrow> getSubstitution matched before after replacement = replacement"
  by (induction matched before after replacement rule: getSubstitution.induct) auto

subsection \<open>Claim C7: every occurrence becomes the replacement text\<close>

text \<open>
  Claim C7: for every replacement map and every text node, a global case-insensitive
  matcher is built from the escaped word of each entry and every occurrence is substituted
  with the replacement text; a node is rewritten only if an entry matched; with the map
  \<open>{cat: dog}\<close> the node \<open>The Cat sat.\<close> becomes \<open>The dog sat.\<close> The matcher, the condition
  and the example are as claimed (lemmas \<open>literalPattern_escapeRegExp\<close>,
  \<open>rewriteNode_no_match\<close>, \<open>rewriteNode_cat_dog\<close>). The substitution is not: the code escapes
  the word, but hands the user's text to \<^verbatim>\<open>text.replace(regex, replacement)\<close> as it is,
  where a dollar sign starts a replacement pattern. With the replacement \<^verbatim>\<open>$&\<close> the node
  \<open>The Cat sat.\<close> is written back unchanged (each match is replaced by itself), and with
  \<^verbatim>\<open>$$$\<close> it becomes \<^verbatim>\<open>The $$ sat.\<close>
\<close>

theorem rewriteNode_expands_dollar_patterns:
  "rewriteNode [(''cat'', ''$&'')] ''The Cat sat.'' = Returned (Some ''The Cat sat.'') \<and>
   rewriteNode [(''cat'', ''$$$'')] ''The Cat sat.'' = Returned (Some ''The $$ sat.'')"
  by code_simp

section \<open>Properties of the session handling\<close>

text \<open>The base case destroys its session when \<open>summarize\<close> returns.\<close>

lemma runSummarization_base_returns:
  assumes "length t \<le> CHUNK_SIZE" "createSession h (sessionsCreated trace) = Returned ()"
    and "summarize h (sessionsCreated trace) t = Returned r"
  shows "runSummarization (Suc n) h t trace
           = Some (Returned r, trace @ [Created (sessionsCreated trace), Summarized (sessionsCreated trace) t,
                                       Destroyed (sessionsCreated trace)])"
  using assms by (simp add: Let_def)

text \<open>The loop over the chunks adds only calls of \<open>summarize\<close> to the trace.\<close>

lemma summarizeChunks_trace:
  "\<exists>added. snd (summarizeChunks h sid chunks acc trace) = trace @ added \<and>
     (\<forall>e\<in>set added. \<exists>c. e = Summarized sid c)"
proof (induction chunks arbitrary: acc trace)
  case Nil
  then show ?case by simp
next
  case (Cons chunk cs)
  show ?case
  proof (cases "summarize h sid chunk")
    case (Thrown e)
    then show ?thesis by simp
  next
    case (Returned summary)
    from Cons.IH [of "acc @ [summary]" "trace @ [Summarized sid chunk]"]
    obtain m where m: "snd (summarizeChunks h sid cs (acc @ [summary]) (trace @ [Summarized sid chunk]))
        = (trace @ [Summarized sid chunk]) @ m" "\<forall>e\<in>set m. \<exists>c. e = Summarized sid c"
      by blast
    show ?thesis
      by (rule exI [of _ "Summarized sid chunk # m"]) (use Returned m in simp)
  qed
qed

text \<open>
  The batch path destroys its session when a chunk fails: the trace of the failed run ends
  with the \<open>destroy\<close> of the session it created.
\<close>

lemma runSummarization_batch_throws:
  assumes "CHUNK_SIZE < length t" "createSession h (sessionsCreated trace) = Returned ()"
    and "fst (summarizeChunks h (sessionsCreated trace) (chunkText t) [] (trace @ [Created (sessionsCreated trace)])) = Thrown e"
  shows "\<exists>added. runSummarization (Suc n) h t trace
           = Some (Thrown e, trace @ [Created (sessionsCreated trace)] @ added @ [Destroyed (sessionsCreated trace)]) \<and>
         (\<forall>e\<in>set added. \<exists>c. e = Summarized (sessionsCreated trace) c)"
proof -
  from summarizeChunks_trace [of h "sessionsCreated trace" "chunkText t" "[]" "trace @ [Created (sessionsCreated trace)]"]
  obtain m where m: "snd (summarizeChunks h (sessionsCreated trace) (chunkText t) []
        (trace @ [Created (sessionsCreated trace)])) = (trace @ [Created (sessionsCreated trace)]) @ m"
      "\<forall>e\<in>set m. \<exists>c. e = Summarized (sessionsCreated trace) c"
    by blast
  show ?thesis
    by (rule exI [of _ m]) (use assms m in \<open>simp add: Let_def\<close>)
qed

subsection \<open>Claim C1: every session is destroyed once\<close>

text \<open>
  Claim C1 says that every operation that creates a session destroys it exactly once on
  every exit path. The batch path does (\<open>try\<close> and \<open>finally\<close>, lemma
  \<open>runSummarization_batch_throws\<close>). The base case of \<open>runSummarization\<close> and the scan
  handler call \<open>destroy\<close> only behind the last statement that can throw: when \<open>summarize\<close>
  throws in the base case, and when the response of the prompt does not parse, the trace
  holds the creation of session 0 and no \<open>destroy\<close>.
\<close>

theorem sessions_leak:
  "runSummarization 1 throwingModel ''The cat sat.'' []
     = Some (Thrown (newError ''The model crashed.''), [Created 0, Summarized 0 ''The cat sat.'']) \<and>
   scanHandler aiWindow chattyModel examplePage []
     = (ErrorShown (newError ''Failed to parse model output.''),
        [Created 0, Prompted 0 (promptFor ''The cat sat.'')])"
proof
  show "runSummarization 1 throwingModel ''The cat sat.'' []
     = Some (Thrown (newError ''The model crashed.''), [Created 0, Summarized 0 ''The cat sat.''])"
    by (simp add: throwingModel_def CHUNK_SIZE_def sessionsCreated_def)
  have g: "getApiObject aiWindow \<lparr>key = ''LanguageModel'', checkArgs = JUndefined,
                        namespace = Some ''ai'', fallback = None\<rparr>
        = Returned \<lparr>api = exampleHandle, path = ''window.ai.LanguageModel''\<rparr>"
    by (simp add: getApiObject_def aiWindow_def exampleHandle_def)
  have p: "parseResponse ''Sure! Here are the words you asked for.''
        = Thrown (newError ''Failed to parse model output.'')"
    by code_simp
  show "scanHandler aiWindow chattyModel examplePage []
     = (ErrorShown (newError ''Failed to parse model output.''),
        [Created 0, Prompted 0 (promptFor ''The cat sat.'')])"
    by (simp add: scanHandler_def examplePage_def g p chattyModel_def sessionsCreated_def
          startsWith_def exampleHandle_def)
qed

end
